theory Spec2Isabelle
  imports Complex_Main "HOL-Library.Multiset"
begin

section \<open>Numbers of the Spark runtime\<close>

text \<open>
  The program is a PySpark script: every value it handles is a DataFrame, a relation whose
  rows have named columns. A DataFrame is modelled as the list of its rows and a row as a
  record with the columns' names. Columns shared by several relations (\<open>movieID\<close>,
  \<open>movie1\<close>, \<open>movie2\<close>, \<open>numPairs\<close>) sit in a common parent record, so each keeps the
  name it has in the source.

  Scope of the model:
  \<^item> an \<open>IntegerType\<close> value is an \<open>int\<close>, meant in the range of 32 bits; arithmetic on
    such columns wraps at 32 bits, sums (\<open>LongType\<close>) wrap at 64 bits, as Spark computes
    them outside ANSI mode; a count is a \<open>nat\<close>;
  \<^item> a \<open>DoubleType\<close> value is a finite real that is a double, or NaN; every operation
    rounds its exact result to the nearest double, ties to even. The values of this
    program are sums of at most 64 bits, their square roots, products and quotients, so
    they stay in the range of normal doubles and no infinity arises;
  \<^item> the rating column is nullable, as the schema declares it. A row whose \<open>userID\<close> or
    \<open>movieID\<close> is null takes part in no join of the script; such rows are left out of
    the relations of the model;
  \<^item> Spark leaves the row order of \<open>groupBy\<close> and \<open>join\<close> unspecified; the model fixes one
    order, and the properties proved below are stated so that they do not depend on it.
\<close>

text \<open>The value of a 32-bit, respectively 64-bit, signed integer after overflow.\<close>
definition wrap32 :: "int \<Rightarrow> int" where
  "wrap32 x = (x + 2 ^ 31) mod 2 ^ 32 - 2 ^ 31"

definition wrap64 :: "int \<Rightarrow> int" where
  "wrap64 x = (x + 2 ^ 63) mod 2 ^ 64 - 2 ^ 63"

text \<open>Rounding to the nearest integer, ties to the even one.\<close>
definition round_even :: "real \<Rightarrow> int" where
  "round_even y =
     (let f = \<lfloor>y\<rfloor> in
        if y - of_int f < 1 / 2 then f
        else if y - of_int f > 1 / 2 then f + 1
        else if even f then f else f + 1)"

text \<open>The binary exponent of a non-zero real: \<open>2 powi expo x \<le> \<bar>x\<bar> < 2 powi (expo x + 1)\<close>.\<close>
definition expo :: "real \<Rightarrow> int" where
  "expo x = \<lfloor>log 2 \<bar>x\<bar>\<rfloor>"

text \<open>Rounding to the nearest double: 53 significant bits, ties to even.\<close>
definition fl :: "real \<Rightarrow> real" where
  "fl x = (if x = 0 then 0
           else of_int (round_even (x / 2 powi (expo x - 52))) * 2 powi (expo x - 52))"

text \<open>The relative error of one rounding.\<close>
definition unit_roundoff :: real where
  "unit_roundoff = 1 / 2 ^ 53"

datatype double = Fin real | NaN

text \<open>The cast of a \<open>LongType\<close> value to \<open>DoubleType\<close>.\<close>
definition of_long :: "int \<Rightarrow> double" where
  "of_long n = Fin (fl (of_int n))"

text \<open>\<open>func.sqrt\<close>: NaN on a negative argument.\<close>
fun dsqrt :: "double \<Rightarrow> double" where
  "dsqrt (Fin x) = (if x < 0 then NaN else Fin (fl (sqrt x)))"
| "dsqrt NaN = NaN"

fun dmul :: "double \<Rightarrow> double \<Rightarrow> double" where
  "dmul (Fin x) (Fin y) = Fin (fl (x * y))"
| "dmul _ _ = NaN"

text \<open>Division; the script divides only by a value it has tested to differ from 0.\<close>
fun ddiv :: "double \<Rightarrow> double \<Rightarrow> double" where
  "ddiv (Fin x) (Fin y) = Fin (fl (x / y))"
| "ddiv _ _ = NaN"

text \<open>The test \<open>col != 0\<close> on a double: Spark holds NaN different from 0.\<close>
fun dne0 :: "double \<Rightarrow> bool" where
  "dne0 (Fin x) = (x \<noteq> 0)"
| "dne0 NaN = True"

text \<open>The values of a nullable column that are not null.\<close>
fun nonNull :: "'a option list \<Rightarrow> 'a list" where
  "nonNull [] = []"
| "nonNull (None # xs) = nonNull xs"
| "nonNull (Some v # xs) = v # nonNull xs"


section \<open>Relations of the movie recommendation pipeline\<close>

record item_key =
  movieID :: int

text \<open>\<open>movieNamesSchema\<close>: the rows of \<open>movieNames\<close>.\<close>
record name_row = item_key +
  movieTitle :: string

text \<open>The rows of \<open>ratings\<close>: \<open>select("userID", "movieID", "rating")\<close>.\<close>
record rating_row = item_key +
  userID :: int
  rating :: "int option"

text \<open>\<open>moviesSchema\<close>: the rows of \<open>movies\<close>.\<close>
record movie_row = rating_row +
  timestamp :: int

text \<open>The rows of \<open>movieAverages\<close> and \<open>goodMovies\<close>; the average is null for a movie
  all of whose ratings are null.\<close>
record avg_row = item_key +
  avgRating :: "real option"


section \<open>Quality filter: \<open>filterGoodMovies\<close>\<close>

text \<open>The sum that \<open>func.avg\<close> accumulates: each rating is cast to a double and added to
  the running sum in double arithmetic.\<close>
definition dsum :: "int list \<Rightarrow> real" where
  "dsum rs = foldl (\<lambda>acc r. fl (acc + fl (of_int r))) 0 rs"

text \<open>\<open>func.avg("rating")\<close> over one group: the sum of the ratings that are not null
  divided by their number, both as doubles; null when there is no such rating.\<close>
definition avg :: "int option list \<Rightarrow> real option" where
  "avg xs =
     (let rs = nonNull xs
      in if rs = [] then None else Some (fl (dsum rs / fl (real (length rs)))))"

text \<open>The ratings of one group of \<open>movies.groupBy("movieID")\<close>.\<close>
definition ratingsOf :: "movie_row list \<Rightarrow> int \<Rightarrow> int option list" where
  "ratingsOf movies m = map rating (filter (\<lambda>r. movieID r = m) movies)"

text \<open>\<open>movies.groupBy("movieID").agg(func.avg("rating").alias("avgRating"))\<close>: one row per
  distinct \<open>movieID\<close>.\<close>
definition movieAverages :: "movie_row list \<Rightarrow> avg_row list" where
  "movieAverages movies =
     map (\<lambda>m. \<lparr>movieID = m, avgRating = avg (ratingsOf movies m)\<rparr>)
         (remdups (map movieID movies))"

text \<open>The test \<open>avgRating >= threshold\<close>: a null average fails it.\<close>
definition avgAtLeast :: "real option \<Rightarrow> real \<Rightarrow> bool" where
  "avgAtLeast a threshold = (case a of None \<Rightarrow> False | Some v \<Rightarrow> v \<ge> threshold)"

text \<open>\<open>movieAverages.filter(func.col("avgRating") >= threshold)\<close>.\<close>
definition filterGoodMovies :: "movie_row list \<Rightarrow> real \<Rightarrow> avg_row list" where
  "filterGoodMovies movies threshold =
     filter (\<lambda>g. avgAtLeast (avgRating g) threshold) (movieAverages movies)"

text \<open>The default of the parameter \<open>threshold\<close>, the one the script runs with.\<close>
definition goodMovies :: "movie_row list \<Rightarrow> avg_row list" where
  "goodMovies movies = filterGoodMovies movies 3.0"


section \<open>Co-rating pair generator: \<open>ratings\<close> and \<open>moviePairs\<close>\<close>

text \<open>\<open>movies.join(goodMovies, "movieID").select("userID", "movieID", "rating")\<close>: an inner
  join, one output row for every rating row and every row of the second relation with the
  same \<open>movieID\<close>.\<close>
definition ratings :: "movie_row list \<Rightarrow> avg_row list \<Rightarrow> rating_row list" where
  "ratings movies good =
     concat (map (\<lambda>m. map (\<lambda>g. \<lparr>movieID = movieID m, userID = userID m, rating = rating m\<rparr>)
                           (filter (\<lambda>g. movieID g = movieID m) good))
                 movies)"

record pair_key =
  movie1 :: int
  movie2 :: int

text \<open>The rows of \<open>moviePairs\<close>.\<close>
record pair_row = pair_key +
  rating1 :: "int option"
  rating2 :: "int option"

text \<open>The self-join of \<open>moviePairs\<close>, before its \<open>select\<close>: the pairs of a row of
  \<open>ratings1\<close> and a row of \<open>ratings2\<close> with the same user and a greater \<open>movieID\<close> on the
  \<open>ratings2\<close> side.\<close>
definition joinRatings :: "rating_row list \<Rightarrow> (rating_row \<times> rating_row) list" where
  "joinRatings rs =
     concat (map (\<lambda>ratings1. map (\<lambda>ratings2. (ratings1, ratings2))
                      (filter (\<lambda>ratings2. userID ratings2 = userID ratings1
                                         \<and> movieID ratings2 > movieID ratings1) rs))
                 rs)"

text \<open>The \<open>select\<close> of \<open>moviePairs\<close>, with its four aliases.\<close>
definition selectPair :: "rating_row \<times> rating_row \<Rightarrow> pair_row" where
  "selectPair j =
     \<lparr>movie1 = movieID (fst j), movie2 = movieID (snd j),
      rating1 = rating (fst j), rating2 = rating (snd j)\<rparr>"

definition moviePairs :: "rating_row list \<Rightarrow> pair_row list" where
  "moviePairs rs = map selectPair (joinRatings rs)"


section \<open>Similarity aggregator: \<open>computeCosineSimilarity\<close>\<close>

text \<open>The rows of \<open>pairScores\<close>: those of \<open>data\<close> with the columns \<open>xx\<close>, \<open>yy\<close>, \<open>xy\<close>.\<close>
record score_row = pair_row +
  xx :: "int option"
  yy :: "int option"
  xy :: "int option"

record counted_key = pair_key +
  numPairs :: nat

text \<open>The rows of \<open>calculateSimilarity\<close>.\<close>
record agg_row = counted_key +
  numerator :: "int option"
  denominator :: "double option"

text \<open>The rows of \<open>result_\<close>: \<open>select("movie1", "movie2", "score", "numPairs")\<close>.\<close>
record sim_row = counted_key +
  score :: "double option"

text \<open>The product of two \<open>IntegerType\<close> columns: null when a factor is null, and wrapped
  at 32 bits.\<close>
definition mul32 :: "int option \<Rightarrow> int option \<Rightarrow> int option" where
  "mul32 a b =
     (case a of None \<Rightarrow> None
      | Some x \<Rightarrow> (case b of None \<Rightarrow> None | Some y \<Rightarrow> Some (wrap32 (x * y))))"

definition pairScores :: "pair_row list \<Rightarrow> score_row list" where
  "pairScores data =
     map (\<lambda>d. \<lparr>movie1 = movie1 d, movie2 = movie2 d,
               rating1 = rating1 d, rating2 = rating2 d,
               xx = mul32 (rating1 d) (rating1 d),
               yy = mul32 (rating2 d) (rating2 d),
               xy = mul32 (rating1 d) (rating2 d)\<rparr>) data"

text \<open>One group of \<open>groupBy("movie1", "movie2")\<close>: the rows with the given key.\<close>
definition pairGroup :: "score_row list \<Rightarrow> int \<times> int \<Rightarrow> score_row list" where
  "pairGroup ps k = filter (\<lambda>p. (movie1 p, movie2 p) = k) ps"

text \<open>\<open>func.sum\<close> of an \<open>IntegerType\<close> column: the 64-bit sum of the values that are not
  null, null when there is none.\<close>
definition sumLong :: "int option list \<Rightarrow> int option" where
  "sumLong xs =
     (let vs = nonNull xs in if vs = [] then None else Some (wrap64 (sum_list vs)))"

text \<open>\<open>func.count\<close> of a column: the number of its values that are not null.\<close>
definition countNonNull :: "'a option list \<Rightarrow> nat" where
  "countNonNull xs = length (nonNull xs)"

text \<open>\<open>func.sqrt\<close> of a sum: the sum is cast to a double; null stays null.\<close>
definition sqrtOfSum :: "int option \<Rightarrow> double option" where
  "sqrtOfSum s = map_option (\<lambda>v. dsqrt (of_long v)) s"

text \<open>The product of two nullable doubles.\<close>
definition mulNullable :: "double option \<Rightarrow> double option \<Rightarrow> double option" where
  "mulNullable a b =
     (case a of None \<Rightarrow> None
      | Some x \<Rightarrow> (case b of None \<Rightarrow> None | Some y \<Rightarrow> Some (dmul x y)))"

text \<open>\<open>groupBy("movie1", "movie2").agg(sum(xy), sqrt(sum(xx)) * sqrt(sum(yy)), count(xy))\<close>:
  one row per distinct key.\<close>
definition calculateSimilarity :: "score_row list \<Rightarrow> agg_row list" where
  "calculateSimilarity ps =
     map (\<lambda>k. \<lparr>movie1 = fst k, movie2 = snd k,
               numPairs = countNonNull (map xy (pairGroup ps k)),
               numerator = sumLong (map xy (pairGroup ps k)),
               denominator = mulNullable (sqrtOfSum (sumLong (map xx (pairGroup ps k))))
                                         (sqrtOfSum (sumLong (map yy (pairGroup ps k))))\<rparr>)
         (remdups (map (\<lambda>p. (movie1 p, movie2 p)) ps))"

text \<open>\<open>when(denominator != 0, numerator / denominator).otherwise(0)\<close>: a null
  denominator makes the test null and the \<open>otherwise\<close> branch is taken; the numerator is
  cast to a double; a null numerator makes the quotient null.\<close>
definition scoreOf :: "int option \<Rightarrow> double option \<Rightarrow> double option" where
  "scoreOf n d =
     (case d of None \<Rightarrow> Some (Fin 0)
      | Some dv \<Rightarrow>
          if dne0 dv
          then (case n of None \<Rightarrow> None | Some nv \<Rightarrow> Some (ddiv (of_long nv) dv))
          else Some (Fin 0))"

text \<open>\<open>withColumn("score", \<dots>)\<close> followed by the \<open>select\<close>: the relation \<open>result_\<close> of the
  source.\<close>
definition result_rows :: "agg_row list \<Rightarrow> sim_row list" where
  "result_rows cs =
     map (\<lambda>c. \<lparr>movie1 = movie1 c, movie2 = movie2 c, numPairs = numPairs c,
               score = scoreOf (numerator c) (denominator c)\<rparr>) cs"

text \<open>The parameter \<open>spark\<close> of the source is not used by the function.\<close>
definition computeCosineSimilarity :: "pair_row list \<Rightarrow> sim_row list" where
  "computeCosineSimilarity data = result_rows (calculateSimilarity (pairScores data))"

text \<open>The pipeline of the script up to \<open>moviePairSimilarities\<close>.\<close>
definition moviePairSimilarities :: "movie_row list \<Rightarrow> sim_row list" where
  "moviePairSimilarities movies =
     computeCosineSimilarity (moviePairs (ratings movies (goodMovies movies)))"


section \<open>Query engine: \<open>filteredResults\<close> and \<open>results\<close>\<close>

text \<open>The Python literal \<open>0.97\<close> is the double nearest to 97/100.\<close>
definition scoreThreshold :: real where
  "scoreThreshold = fl (97 / 100)"

definition coOccurrenceThreshold :: real where
  "coOccurrenceThreshold = 50.0"

text \<open>The test \<open>score > threshold\<close>: null fails it, and Spark orders NaN above every
  number.\<close>
fun scoreAbove :: "double option \<Rightarrow> real \<Rightarrow> bool" where
  "scoreAbove None t = False"
| "scoreAbove (Some NaN) t = True"
| "scoreAbove (Some (Fin x)) t = (x > t)"

text \<open>The order of \<open>score.desc()\<close>: \<open>scoreGe a b\<close> when a row of score \<open>a\<close> may stand before
  a row of score \<open>b\<close>. NaN comes first, null last.\<close>
fun scoreGe :: "double option \<Rightarrow> double option \<Rightarrow> bool" where
  "scoreGe _ None = True"
| "scoreGe None (Some _) = False"
| "scoreGe (Some NaN) (Some _) = True"
| "scoreGe (Some (Fin x)) (Some NaN) = False"
| "scoreGe (Some (Fin x)) (Some (Fin y)) = (x \<ge> y)"

text \<open>The filter of the script, with the queried id and the two thresholds as parameters.
  The count is compared with the threshold as a double; a count below \<open>2^53\<close>, as that of
  any relation a machine holds, is a double.\<close>
definition filteredResults :: "sim_row list \<Rightarrow> int \<Rightarrow> real \<Rightarrow> real \<Rightarrow> sim_row list" where
  "filteredResults sims target sThr cThr =
     filter (\<lambda>r. (movie1 r = target \<or> movie2 r = target)
                 \<and> scoreAbove (score r) sThr
                 \<and> real (numPairs r) > cThr) sims"

text \<open>Sorting by descending score, by insertion. Spark does not say how rows of equal
  score are ordered; the model keeps them in their order in the input.\<close>
fun insertDesc :: "sim_row \<Rightarrow> sim_row list \<Rightarrow> sim_row list" where
  "insertDesc r [] = [r]"
| "insertDesc r (x # xs) =
     (if scoreGe (score r) (score x) then r # x # xs else x # insertDesc r xs)"

definition sortDesc :: "sim_row list \<Rightarrow> sim_row list" where
  "sortDesc xs = foldr insertDesc xs []"

text \<open>\<open>filteredResults.sort(func.col("score").desc()).take(topK)\<close>; the script has
  \<open>topK = 10\<close>.\<close>
definition results :: "sim_row list \<Rightarrow> int \<Rightarrow> real \<Rightarrow> real \<Rightarrow> nat \<Rightarrow> sim_row list" where
  "results sims target sThr cThr topK =
     take topK (sortDesc (filteredResults sims target sThr cThr))"


section \<open>Name resolver: \<open>getMovieName\<close>\<close>

datatype py_error = ValueError | NameError | IndexError | Py4JError

text \<open>\<open>movieNames.filter(col("movieID") == movieId).select("movieTitle").collect()[0]\<close>,
  then column 0 of that row. Indexing the empty list raises \<open>IndexError\<close>.\<close>
definition getMovieName :: "name_row list \<Rightarrow> int \<Rightarrow> py_error + string" where
  "getMovieName movieNames movieId =
     (case filter (\<lambda>r. movieID r = movieId) movieNames of
        [] \<Rightarrow> Inl IndexError
      | result # _ \<Rightarrow> Inr (movieTitle result))"


section \<open>The script: reading the query and printing the answer\<close>

text \<open>
  Python's \<open>int(s)\<close> on a string, as CPython computes it. A string is the list of its
  code points. Two things the interpreter brings are parameters of the model:
  \<^item> \<open>decimal\<close>, the decimal value of a code point from 127 on in the Unicode database
    (\<open>None\<close> when it is no decimal digit);
  \<^item> \<open>max_str_digits\<close>, the limit on the number of digits (4300 by default, 0 for no
    limit).
\<close>
record py_config =
  decimal :: "nat \<Rightarrow> nat option"
  max_str_digits :: nat

text \<open>The white space among the code points from 127 on.\<close>
definition is_unicode_space :: "nat \<Rightarrow> bool" where
  "is_unicode_space c =
     (c = 0x85 \<or> c = 0xA0 \<or> c = 0x1680 \<or> (0x2000 \<le> c \<and> c \<le> 0x200A)
      \<or> c = 0x2028 \<or> c = 0x2029 \<or> c = 0x202F \<or> c = 0x205F \<or> c = 0x3000)"

text \<open>The first pass of \<open>int\<close>: code points below 127 are kept, white space becomes a
  blank, a decimal digit its ASCII digit, and anything else a question mark that ends
  the text.\<close>
fun toAscii :: "py_config \<Rightarrow> nat list \<Rightarrow> nat list" where
  "toAscii cfg [] = []"
| "toAscii cfg (c # cs) =
     (if c < 127 then c # toAscii cfg cs
      else if is_unicode_space c then 32 # toAscii cfg cs
      else (case decimal cfg c of None \<Rightarrow> [63] | Some d \<Rightarrow> (48 + d) # toAscii cfg cs))"

text \<open>The white space the second pass skips at both ends: blank, tab, line feed,
  vertical tab, form feed, carriage return.\<close>
definition is_space :: "nat \<Rightarrow> bool" where
  "is_space c = ((9 \<le> c \<and> c \<le> 13) \<or> c = 32)"

definition digit_of :: "nat \<Rightarrow> int option" where
  "digit_of c = (if 48 \<le> c \<and> c \<le> 57 then Some (int c - 48) else None)"

definition strip :: "nat list \<Rightarrow> nat list" where
  "strip s = rev (dropWhile is_space (rev (dropWhile is_space s)))"

text \<open>The digits after the first one: a single underscore may stand between two
  digits.\<close>
fun py_digits :: "int \<Rightarrow> nat list \<Rightarrow> int option" where
  "py_digits acc [] = Some acc"
| "py_digits acc [c] =
     (case digit_of c of None \<Rightarrow> None | Some v \<Rightarrow> Some (10 * acc + v))"
| "py_digits acc (c # d # ds) =
     (if c = 95
      then (case digit_of d of None \<Rightarrow> None | Some v \<Rightarrow> py_digits (10 * acc + v) ds)
      else (case digit_of c of None \<Rightarrow> None | Some v \<Rightarrow> py_digits (10 * acc + v) (d # ds)))"

text \<open>The limit on the number of digits, underscores not counted.\<close>
definition too_many_digits :: "py_config \<Rightarrow> nat list \<Rightarrow> bool" where
  "too_many_digits cfg s =
     (let n = length (filter (\<lambda>c. c \<noteq> 95) s)
      in 640 < n \<and> 0 < max_str_digits cfg \<and> max_str_digits cfg < n)"

definition py_unsigned :: "py_config \<Rightarrow> nat list \<Rightarrow> int option" where
  "py_unsigned cfg s =
     (case s of [] \<Rightarrow> None
      | c # cs \<Rightarrow>
          (case digit_of c of None \<Rightarrow> None
           | Some v \<Rightarrow>
               (case py_digits v cs of None \<Rightarrow> None
                | Some n \<Rightarrow> if too_many_digits cfg s then None else Some n)))"

definition py_int :: "py_config \<Rightarrow> nat list \<Rightarrow> int option" where
  "py_int cfg s =
     (case strip (toAscii cfg s) of [] \<Rightarrow> None
      | c # cs \<Rightarrow>
          if c = 45 then map_option uminus (py_unsigned cfg cs)
          else if c = 43 then py_unsigned cfg cs
          else py_unsigned cfg (c # cs))"

text \<open>What the script prints, line by line, and how it ends. The formatting of a result
  line (\<open>score\<close> to two decimals) is not modelled: a line carries the values printed.\<close>
datatype line =
    InvalidInputLine
  | TopLine string
  | ResultLine string "double option" nat
  | NoSimilarLine

datatype ending = Finished | Uncaught py_error

record outcome =
  printed :: "line list"
  ended :: ending

text \<open>The \<open>for result in results\<close> loop: one line per result, naming the other movie of
  the pair; a failing name lookup ends the script with the lines printed so far.\<close>
fun printResults :: "name_row list \<Rightarrow> int \<Rightarrow> sim_row list \<Rightarrow> line list \<Rightarrow> outcome" where
  "printResults movieNames target [] out = \<lparr>printed = out, ended = Finished\<rparr>"
| "printResults movieNames target (result # rest) out =
     (let similarMovieID = (if movie1 result \<noteq> target then movie1 result else movie2 result)
      in case getMovieName movieNames similarMovieID of
           Inl e \<Rightarrow> \<lparr>printed = out, ended = Uncaught e\<rparr>
         | Inr name \<Rightarrow>
             printResults movieNames target rest
               (out @ [ResultLine name (score result) (numPairs result)]))"

text \<open>An integer that fits a 64-bit signed \<open>long\<close>. The comparison \<open>col == movieID\<close> hands
  the Python integer to the Java side, which takes no other.\<close>
definition fits_long :: "int \<Rightarrow> bool" where
  "fits_long n = (- (2 ^ 63) \<le> n \<and> n < 2 ^ 63)"

text \<open>
  The script from the prompt on, as a function of the interpreter's parameters, of the
  two loaded relations and of the string typed at the prompt.
  \<^item> In the \<open>except ValueError\<close> branch the script prints the message and evaluates
    \<open>sys.exit(1)\<close>; the module \<open>sys\<close> is not imported, so the script ends there with an
    uncaught \<open>NameError\<close>.
  \<^item> An integer beyond 64 bits makes the construction of the filter fail with
    \<open>Py4JError\<close>, before anything is printed.
\<close>
definition script :: "py_config \<Rightarrow> name_row list \<Rightarrow> movie_row list \<Rightarrow> nat list \<Rightarrow> outcome" where
  "script cfg movieNames movies inp =
     (case py_int cfg inp of
        None \<Rightarrow> \<lparr>printed = [InvalidInputLine], ended = Uncaught NameError\<rparr>
      | Some target \<Rightarrow>
          if \<not> fits_long target then \<lparr>printed = [], ended = Uncaught Py4JError\<rparr>
          else
            (let res = results (moviePairSimilarities movies) target
                         scoreThreshold coOccurrenceThreshold 10
             in if res \<noteq> []
                then (case getMovieName movieNames target of
                        Inl e \<Rightarrow> \<lparr>printed = [], ended = Uncaught e\<rparr>
                      | Inr name \<Rightarrow> printResults movieNames target res [TopLine name])
                else \<lparr>printed = [NoSimilarLine], ended = Finished\<rparr>))"


section \<open>The specification's formulas\<close>

text \<open>
  The definitions of this section are not taken from the source: they restate the
  specification's words over the observations of one pair or the ratings of one movie, to
  compare the source's computations with them.
\<close>

text \<open>The observations of the pair \<open>(a, b)\<close> in a co-rating relation.\<close>
definition pairObservations :: "pair_row list \<Rightarrow> int \<Rightarrow> int \<Rightarrow> pair_row list" where
  "pairObservations data a b = filter (\<lambda>d. movie1 d = a \<and> movie2 d = b) data"

text \<open>An observation with both ratings present.\<close>
definition bothRated :: "pair_row \<Rightarrow> bool" where
  "bothRated d = (rating1 d \<noteq> None \<and> rating2 d \<noteq> None)"

text \<open>The value of a rating that is present.\<close>
definition ratingValue :: "int option \<Rightarrow> int" where
  "ratingValue r = (case r of None \<Rightarrow> 0 | Some v \<Rightarrow> v)"

text \<open>Observations whose ratings are all present and between \<open>lo\<close> and \<open>hi\<close>.\<close>
definition ratingsWithin :: "int \<Rightarrow> int \<Rightarrow> pair_row list \<Rightarrow> bool" where
  "ratingsWithin lo hi obs =
     list_all (\<lambda>d. bothRated d
                  \<and> lo \<le> ratingValue (rating1 d) \<and> ratingValue (rating1 d) \<le> hi
                  \<and> lo \<le> ratingValue (rating2 d) \<and> ratingValue (rating2 d) \<le> hi) obs"

definition sumSquares1 :: "pair_row list \<Rightarrow> int" where
  "sumSquares1 obs = (\<Sum>d\<leftarrow>obs. ratingValue (rating1 d) * ratingValue (rating1 d))"

definition sumSquares2 :: "pair_row list \<Rightarrow> int" where
  "sumSquares2 obs = (\<Sum>d\<leftarrow>obs. ratingValue (rating2 d) * ratingValue (rating2 d))"

text \<open>The sum of \<open>rating1 * rating2\<close>, in the integers.\<close>
definition specNumerator :: "pair_row list \<Rightarrow> int" where
  "specNumerator obs = (\<Sum>d\<leftarrow>obs. ratingValue (rating1 d) * ratingValue (rating2 d))"

text \<open>\<open>sqrt (sum of rating1\<^sup>2) * sqrt (sum of rating2\<^sup>2)\<close>, the sums in the integers, the roots
  and the product in doubles.\<close>
definition specDenominator :: "pair_row list \<Rightarrow> double" where
  "specDenominator obs = dmul (dsqrt (of_long (sumSquares1 obs))) (dsqrt (of_long (sumSquares2 obs)))"

text \<open>numerator / denominator when the denominator is not 0, and 0 otherwise.\<close>
definition specScore :: "pair_row list \<Rightarrow> double" where
  "specScore obs =
     (if dne0 (specDenominator obs)
      then ddiv (of_long (specNumerator obs)) (specDenominator obs) else Fin 0)"

text \<open>The same quantities in the real numbers, without rounding.\<close>
definition exactDenominator :: "pair_row list \<Rightarrow> real" where
  "exactDenominator obs =
     sqrt (real_of_int (sumSquares1 obs)) * sqrt (real_of_int (sumSquares2 obs))"

definition exactScore :: "pair_row list \<Rightarrow> real" where
  "exactScore obs =
     (if exactDenominator obs \<noteq> 0
      then real_of_int (specNumerator obs) / exactDenominator obs else 0)"

text \<open>The arithmetic mean of a list of ratings, in the real numbers.\<close>
definition mean :: "int list \<Rightarrow> real" where
  "mean rs = real_of_int (sum_list rs) / real (length rs)"

text \<open>The aggregate row and the result row that the source computes from the
  observations of the key \<open>k\<close>.\<close>
definition aggOf :: "pair_row list \<Rightarrow> int \<times> int \<Rightarrow> agg_row" where
  "aggOf data k =
     \<lparr>movie1 = fst k, movie2 = snd k,
      numPairs = countNonNull (map xy (pairScores (pairObservations data (fst k) (snd k)))),
      numerator = sumLong (map xy (pairScores (pairObservations data (fst k) (snd k)))),
      denominator =
        mulNullable
          (sqrtOfSum (sumLong (map xx (pairScores (pairObservations data (fst k) (snd k))))))
          (sqrtOfSum (sumLong (map yy (pairScores (pairObservations data (fst k) (snd k))))))\<rparr>"

definition simOf :: "pair_row list \<Rightarrow> int \<times> int \<Rightarrow> sim_row" where
  "simOf data k =
     \<lparr>movie1 = fst k, movie2 = snd k,
      numPairs = numPairs (aggOf data k),
      score = scoreOf (numerator (aggOf data k)) (denominator (aggOf data k))\<rparr>"

text \<open>The key of a rating row: who rated what. Not a definition of the source; the
  properties of the pair generator are stated with it.\<close>
definition ratingKey :: "'a rating_row_scheme \<Rightarrow> int \<times> int" where
  "ratingKey r = (userID r, movieID r)"


section \<open>Example relations\<close>

text \<open>The scenario of the specification: users 1 and 2, movies 1, 2 and 3; user 1 rates
  movies 1 and 2 with 5 and movie 3 with 1, user 2 rates movies 1 and 2 with 4.\<close>
definition exampleMovies :: "movie_row list" where
  "exampleMovies =
     [\<lparr>movieID = 1, userID = 1, rating = Some 5, timestamp = 0\<rparr>,
      \<lparr>movieID = 2, userID = 1, rating = Some 5, timestamp = 0\<rparr>,
      \<lparr>movieID = 1, userID = 2, rating = Some 4, timestamp = 0\<rparr>,
      \<lparr>movieID = 2, userID = 2, rating = Some 4, timestamp = 0\<rparr>,
      \<lparr>movieID = 3, userID = 1, rating = Some 1, timestamp = 0\<rparr>]"

text \<open>The co-rating observations of that scenario when every movie passes the filter.\<close>
definition examplePairs :: "pair_row list" where
  "examplePairs =
     [\<lparr>movie1 = 1, movie2 = 2, rating1 = Some 5, rating2 = Some 5\<rparr>,
      \<lparr>movie1 = 1, movie2 = 3, rating1 = Some 5, rating2 = Some 1\<rparr>,
      \<lparr>movie1 = 2, movie2 = 3, rating1 = Some 5, rating2 = Some 1\<rparr>,
      \<lparr>movie1 = 1, movie2 = 2, rating1 = Some 4, rating2 = Some 4\<rparr>]"

definition exampleNames :: "name_row list" where
  "exampleNames =
     [\<lparr>movieID = 1, movieTitle = ''Toy Story (1995)''\<rparr>,
      \<lparr>movieID = 2, movieTitle = ''GoldenEye (1995)''\<rparr>,
      \<lparr>movieID = 3, movieTitle = ''Four Rooms (1995)''\<rparr>]"


text \<open>A rating relation in which user 1 has two rows for movie 1 and one for movie 2.\<close>
definition duplicateMovies :: "movie_row list" where
  "duplicateMovies =
     [\<lparr>movieID = 1, userID = 1, rating = Some 5, timestamp = 0\<rparr>,
      \<lparr>movieID = 1, userID = 1, rating = Some 3, timestamp = 1\<rparr>,
      \<lparr>movieID = 2, userID = 1, rating = Some 4, timestamp = 2\<rparr>]"

text \<open>Three ratings of one movie with the mean 10/3.\<close>
definition thirdsMovies :: "movie_row list" where
  "thirdsMovies =
     [\<lparr>movieID = 1, userID = 1, rating = Some 3, timestamp = 0\<rparr>,
      \<lparr>movieID = 1, userID = 2, rating = Some 3, timestamp = 0\<rparr>,
      \<lparr>movieID = 1, userID = 3, rating = Some 4, timestamp = 0\<rparr>]"

text \<open>Three observations of one pair, rated alike by each user, all within 1 to 5.\<close>
definition roundingPairs :: "pair_row list" where
  "roundingPairs =
     [\<lparr>movie1 = 1, movie2 = 2, rating1 = Some 5, rating2 = Some 5\<rparr>,
      \<lparr>movie1 = 1, movie2 = 2, rating1 = Some 5, rating2 = Some 5\<rparr>,
      \<lparr>movie1 = 1, movie2 = 2, rating1 = Some 3, rating2 = Some 3\<rparr>]"

text \<open>A crowd of users who all rate movies 1 and 2 with 5, and the crowd of the users 1
  to 51.\<close>
definition crowd :: "int list \<Rightarrow> movie_row list" where
  "crowd us =
     concat (map (\<lambda>u. [\<lparr>movieID = 1, userID = u, rating = Some 5, timestamp = 0\<rparr>,
                        \<lparr>movieID = 2, userID = u, rating = Some 5, timestamp = 0\<rparr>]) us)"

definition crowdMovies :: "movie_row list" where
  "crowdMovies = crowd [1..51]"

text \<open>The interpreter's parameters: the default limit of 4300 digits, and of the Unicode
  decimal digits those from U+0660 to U+0669.\<close>
definition exampleConfig :: py_config where
  "exampleConfig =
     \<lparr>decimal = (\<lambda>c. if 0x660 \<le> c \<and> c \<le> 0x669 then Some (c - 0x660) else None),
      max_str_digits = 4300\<rparr>"

text \<open>The code points of a text of the Latin-1 range.\<close>
definition codepoints :: "string \<Rightarrow> nat list" where
  "codepoints s = map of_char s"


section \<open>Facts about the numbers\<close>

lemma powr2_int: "2 powr real_of_int k = (2::real) powi k"
  by (simp add: powr_real_of_int')

lemma powr2_int_Suc: "2 powr (real_of_int k + 1) = (2::real) powi (k + 1)"
  using powr2_int [of "k + 1"] by simp

lemma power_int_2_pos: "0 < (2::real) powi k"
  by simp

lemma expo_bounds:
  assumes "x \<noteq> 0"
  shows "2 powi expo x \<le> \<bar>x\<bar>" "\<bar>x\<bar> < 2 powi (expo x + 1)"
proof -
  have "0 < \<bar>x\<bar>" using assms by simp
  from floor_log_eq_powr_iff [OF this, of 2 "expo x"]
  have "2 powr real_of_int (expo x) \<le> \<bar>x\<bar> \<and> \<bar>x\<bar> < 2 powr (real_of_int (expo x) + 1)"
    by (simp add: expo_def)
  then show "2 powi expo x \<le> \<bar>x\<bar>" "\<bar>x\<bar> < 2 powi (expo x + 1)"
    unfolding powr2_int powr2_int_Suc by simp_all
qed

lemma expo_eqI:
  assumes "2 powi e \<le> \<bar>x\<bar>" "\<bar>x\<bar> < 2 powi (e + 1)"
  shows "expo x = e"
proof -
  have "0 < \<bar>x\<bar>" using assms(1) power_int_2_pos [of e] by linarith
  from floor_log_eq_powr_iff [OF this, of 2 e] assms
  show ?thesis unfolding powr2_int powr2_int_Suc by (simp add: expo_def)
qed

lemma round_even_near:
  assumes "\<bar>y - of_int m\<bar> < 1 / 2"
  shows "round_even y = m"
proof -
  have "\<lfloor>y\<rfloor> = m \<or> \<lfloor>y\<rfloor> = m - 1"
    using assms by linarith
  then show ?thesis
  proof
    assume "\<lfloor>y\<rfloor> = m"
    moreover from this have "of_int m \<le> y" by linarith
    ultimately show ?thesis using assms by (simp add: round_even_def)
  next
    assume f: "\<lfloor>y\<rfloor> = m - 1"
    then have "y < of_int m" by linarith
    with assms have "y - of_int (m - 1) > 1 / 2" by simp
    with f show ?thesis by (simp add: round_even_def)
  qed
qed

lemma round_even_of_int [simp]: "round_even (of_int m) = m"
  by (rule round_even_near) simp

lemma round_even_err: "\<bar>y - of_int (round_even y)\<bar> \<le> 1 / 2"
proof -
  have "of_int \<lfloor>y\<rfloor> \<le> y" "y < of_int \<lfloor>y\<rfloor> + 1" by linarith+
  then show ?thesis
    by (auto simp: round_even_def Let_def)
qed

lemma fl_eqI:
  assumes "2 powi e \<le> \<bar>x\<bar>" "\<bar>x\<bar> < 2 powi (e + 1)"
    and "\<bar>x / 2 powi (e - 52) - of_int m\<bar> < 1 / 2"
  shows "fl x = of_int m * 2 powi (e - 52)"
proof -
  have "0 < \<bar>x\<bar>" using assms(1) power_int_2_pos [of e] by linarith
  then have "x \<noteq> 0" by simp
  moreover have "expo x = e" by (rule expo_eqI [OF assms(1,2)])
  ultimately show ?thesis
    using round_even_near [OF assms(3)] by (simp add: fl_def)
qed

lemma fl_err: "\<bar>fl x - x\<bar> \<le> \<bar>x\<bar> / 2 ^ 53"
proof (cases "x = 0")
  case True
  then show ?thesis by (simp add: fl_def)
next
  case False
  define q :: real where "q = 2 powi (expo x - 52)"
  define r :: real where "r = of_int (round_even (x / q))"
  have q: "0 < q" by (simp add: q_def)
  have flx: "fl x = r * q"
    using False by (simp add: fl_def q_def r_def)
  have "\<bar>x / q - r\<bar> \<le> 1 / 2"
    unfolding r_def by (rule round_even_err)
  then have a: "\<bar>x / q - r\<bar> * q \<le> 1 / 2 * q"
    using q by (intro mult_right_mono) simp_all
  have "\<bar>x / q - r\<bar> * q = \<bar>(x / q - r) * q\<bar>"
    using q by (simp add: abs_mult)
  also have "(x / q - r) * q = x - r * q"
    using q by (simp add: left_diff_distrib)
  finally have b: "\<bar>x / q - r\<bar> * q = \<bar>x - r * q\<bar>" .
  from a have e: "\<bar>x - fl x\<bar> \<le> q / 2"
    unfolding b flx by simp
  have "q = 2 powi expo x / 2 ^ 52"
    by (simp add: q_def power_int_diff)
  also have "\<dots> \<le> \<bar>x\<bar> / 2 ^ 52"
    using expo_bounds(1) [OF False] by (simp add: divide_right_mono)
  finally have "q / 2 \<le> \<bar>x\<bar> / 2 ^ 53" by simp
  with e show ?thesis by (simp add: abs_minus_commute)
qed

lemma fl_rel_err: "\<bar>fl x - x\<bar> \<le> \<bar>x\<bar> * unit_roundoff"
  using fl_err [of x] by (simp add: unit_roundoff_def)

lemma fl_lower: "0 \<le> x \<Longrightarrow> x * (1 - unit_roundoff) \<le> fl x"
proof -
  assume "0 \<le> x"
  with fl_rel_err [of x] have "x - x * unit_roundoff \<le> fl x" by (simp add: abs_le_iff)
  then show ?thesis by (simp add: right_diff_distrib)
qed

lemma fl_upper: "0 \<le> x \<Longrightarrow> fl x \<le> x * (1 + unit_roundoff)"
proof -
  assume "0 \<le> x"
  with fl_rel_err [of x] have "fl x \<le> x + x * unit_roundoff" by (simp add: abs_le_iff)
  then show ?thesis by (simp add: distrib_left)
qed

lemma unit_roundoff_bounds: "0 < unit_roundoff" "unit_roundoff < 1"
  by (simp_all add: unit_roundoff_def)

lemma fl_nonneg: "0 \<le> x \<Longrightarrow> 0 \<le> fl x"
proof -
  assume x: "0 \<le> x"
  have "0 \<le> x * (1 - unit_roundoff)"
    using x unit_roundoff_bounds by (intro mult_nonneg_nonneg) simp_all
  with fl_lower [OF x] show ?thesis by linarith
qed

lemma fl_pos: "0 < x \<Longrightarrow> 0 < fl x"
proof -
  assume x: "0 < x"
  have "0 < x * (1 - unit_roundoff)"
    using x unit_roundoff_bounds by (intro mult_pos_pos) simp_all
  with fl_lower [of x] x show ?thesis by linarith
qed

lemma fl_0 [simp]: "fl 0 = 0"
  by (simp add: fl_def)

lemma fl_scaled_int:
  assumes "x \<noteq> 0" "x / 2 powi (expo x - 52) = of_int m"
  shows "fl x = x"
proof -
  have "fl x = of_int m * 2 powi (expo x - 52)"
    using assms by (simp add: fl_def)
  also have "\<dots> = x / 2 powi (expo x - 52) * 2 powi (expo x - 52)"
    by (simp only: assms(2))
  also have "\<dots> = x"
    by simp
  finally show ?thesis .
qed

lemma fl_dyadic_exact:
  assumes "\<bar>m\<bar> < 2 ^ 53"
  shows "fl (of_int m * 2 powi k) = of_int m * 2 powi k"
proof (cases "m = 0")
  case True
  then show ?thesis by simp
next
  case False
  define x :: real where "x = of_int m * 2 powi k"
  have x0: "x \<noteq> 0" using False by (simp add: x_def)
  define e where "e = expo x"
  have lo: "2 powi e \<le> \<bar>x\<bar>"
    unfolding e_def using expo_bounds(1) [OF x0] .
  have "\<bar>x\<bar> = of_int \<bar>m\<bar> * 2 powi k"
    by (simp add: x_def abs_mult)
  also have "\<dots> < 2 ^ 53 * 2 powi k"
  proof (rule mult_strict_right_mono)
    have "real_of_int \<bar>m\<bar> < real_of_int (2 ^ 53)"
      using assms by (simp only: of_int_less_iff)
    then show "real_of_int \<bar>m\<bar> < 2 ^ 53" by simp
  qed simp
  also have "\<dots> = 2 powi (53 + k)"
    by (simp add: power_int_add)
  finally have "(2::real) powi e < 2 powi (53 + k)"
    using lo by linarith
  then have "e < 53 + k"
    using power_int_increasing [of "53 + k" e "2::real"] by (cases "e < 53 + k") auto
  then obtain j :: nat where j: "k - (e - 52) = int j"
    using nonneg_int_cases [of "k - (e - 52)"] by auto
  have "x / 2 powi (e - 52) = of_int m * 2 powi (k - (e - 52))"
    by (simp add: x_def power_int_diff)
  also have "\<dots> = of_int (m * 2 ^ j)"
    by (simp add: j)
  finally show ?thesis
    using fl_scaled_int [OF x0] unfolding e_def x_def by blast
qed

lemma fl_int_exact:
  assumes "\<bar>n\<bar> \<le> 2 ^ 53"
  shows "fl (of_int n) = of_int n"
proof (cases "\<bar>n\<bar> < 2 ^ 53")
  case True
  from fl_dyadic_exact [OF True, of 0] show ?thesis by simp
next
  case False
  with assms have "\<bar>n\<bar> = 2 ^ 53" by simp
  then have "n = 2 ^ 52 * 2 \<or> n = - (2 ^ 52) * 2" by (auto simp: abs_if split: if_splits)
  then have "real_of_int n = of_int (2 ^ 52) * 2 powi 1 \<or> real_of_int n = of_int (- (2 ^ 52)) * 2 powi 1"
    by auto
  then show ?thesis
    using fl_dyadic_exact [of "2 ^ 52" 1] fl_dyadic_exact [of "- (2 ^ 52)" 1] by auto
qed

lemma fl_numeral_exact:
  "numeral w \<le> (2 ^ 53 :: int) \<Longrightarrow> fl (numeral w) = numeral w"
  using fl_int_exact [of "numeral w"] by simp

lemma fl_1 [simp]: "fl 1 = 1"
  using fl_int_exact [of 1] by simp

lemma fl_betweenI:
  assumes q: "q = 2 powi (e - 52)"
    and lo: "2 powi e \<le> x" and hi: "x < 2 powi (e + 1)"
    and a: "(of_int m - 1 / 2) * q < x" and b: "x < (of_int m + 1 / 2) * q"
  shows "fl x = of_int m * q"
proof -
  have q0: "0 < q" by (simp add: q)
  have x0: "0 < x" using lo power_int_2_pos [of e] by linarith
  have "of_int m - 1 / 2 < x / q" "x / q < of_int m + 1 / 2"
    using a b q0 by (simp_all add: pos_less_divide_eq pos_divide_less_eq)
  then have "\<bar>x / q - of_int m\<bar> < 1 / 2" by linarith
  then have "\<bar>x / 2 powi (e - 52) - of_int m\<bar> < 1 / 2" by (simp only: q)
  from fl_eqI [OF _ _ this] lo hi x0 show ?thesis by (simp add: q)
qed

lemma fl_ten_thirds: "fl (10 / 3) = 7505999378950827 / 2 ^ 51"
  using fl_betweenI [of "1 / 2 ^ 51" 1 "10 / 3" 7505999378950827]
  by (simp add: power_int_minus)

lemma sqrt_gt: "0 \<le> a \<Longrightarrow> a * a < x \<Longrightarrow> a < sqrt x"
  by (rule real_less_rsqrt) (simp add: power2_eq_square)

lemma sqrt_lt: "0 \<le> b \<Longrightarrow> x < b * b \<Longrightarrow> sqrt x < b"
  by (rule real_less_lsqrt) (simp_all add: power2_eq_square)

lemma sqrt_ge: "0 \<le> a \<Longrightarrow> a * a \<le> x \<Longrightarrow> a \<le> sqrt x"
  by (rule real_le_rsqrt) (simp add: power2_eq_square)

lemma fl_sqrt_59: "fl (sqrt 59) = 8648201281969883 / 2 ^ 50"
proof -
  have "fl (sqrt 59) = of_int 8648201281969883 * (1 / 2 ^ 50)"
  proof (rule fl_betweenI [where e = 2])
    show "(1::real) / 2 ^ 50 = 2 powi (2 - 52)" by (simp add: power_int_minus)
    show "2 powi 2 \<le> sqrt 59" by (simp add: sqrt_ge)
    show "sqrt 59 < 2 powi (2 + 1)" by (simp add: sqrt_lt)
    show "(of_int 8648201281969883 - 1 / 2) * (1 / 2 ^ 50) < sqrt 59"
      by (rule sqrt_gt) simp_all
    show "sqrt 59 < (of_int 8648201281969883 + 1 / 2) * (1 / 2 ^ 50)"
      by (rule sqrt_lt) simp_all
  qed
  then show ?thesis by simp
qed

lemma fl_sqrt_59_squared:
  "fl (8648201281969883 / 2 ^ 50 * (8648201281969883 / 2 ^ 50)) = 8303511812964351 / 2 ^ 47"
  using fl_betweenI [of "1 / 2 ^ 47" 5 "8648201281969883 / 2 ^ 50 * (8648201281969883 / 2 ^ 50)"
      8303511812964351]
  by (simp add: power_int_minus)

lemma fl_59_over: "fl (59 / (8303511812964351 / 2 ^ 47)) = 4503599627370497 / 2 ^ 52"
  using fl_betweenI [of "1 / 2 ^ 52" 0 "59 / (8303511812964351 / 2 ^ 47)" 4503599627370497]
  by (simp add: power_int_minus)

lemma wrap32_id: "- (2 ^ 31) \<le> x \<Longrightarrow> x < 2 ^ 31 \<Longrightarrow> wrap32 x = x"
  by (simp add: wrap32_def)

lemma wrap64_id: "- (2 ^ 63) \<le> x \<Longrightarrow> x < 2 ^ 63 \<Longrightarrow> wrap64 x = x"
  by (simp add: wrap64_def)

lemma small_product:
  fixes a b :: int
  assumes "\<bar>a\<bar> \<le> 46340" "\<bar>b\<bar> \<le> 46340"
  shows "\<bar>a * b\<bar> \<le> 2147395600"
proof -
  have "\<bar>a * b\<bar> = \<bar>a\<bar> * \<bar>b\<bar>" by (simp add: abs_mult)
  also have "\<dots> \<le> 46340 * 46340"
    using assms by (intro mult_mono) simp_all
  finally show ?thesis by simp
qed

lemma wrap32_small_product:
  assumes "\<bar>a\<bar> \<le> 46340" "\<bar>b\<bar> \<le> 46340"
  shows "wrap32 (a * b) = a * b"
proof -
  from small_product [OF assms] have "- (2 ^ 31) \<le> a * b" "a * b < 2 ^ 31"
    by simp_all
  then show ?thesis by (rule wrap32_id)
qed

lemma abs_sum_list_bound:
  fixes xs :: "int list"
  assumes "\<forall>x \<in> set xs. \<bar>x\<bar> \<le> c"
  shows "\<bar>sum_list xs\<bar> \<le> c * int (length xs)"
  using assms
proof (induction xs)
  case Nil
  then show ?case by simp
next
  case (Cons x xs)
  then have "\<bar>sum_list xs\<bar> \<le> c * int (length xs)" "\<bar>x\<bar> \<le> c" by simp_all
  then have "\<bar>x + sum_list xs\<bar> \<le> c + c * int (length xs)" by linarith
  then show ?case by (simp add: algebra_simps)
qed

lemma nonNull_map_Some [simp]: "nonNull (map (\<lambda>x. Some (f x)) xs) = map f xs"
  by (induction xs) simp_all

lemma nonNull_length_le: "length (nonNull xs) \<le> length xs"
  by (induction xs rule: nonNull.induct) simp_all

lemma fl_neg_numeral_exact:
  "numeral w \<le> (2 ^ 53 :: int) \<Longrightarrow> fl (- numeral w) = - numeral w"
  using fl_int_exact [of "- numeral w"] by simp

lemma fl_half_int:
  assumes "\<bar>n\<bar> < 2 ^ 53"
  shows "fl (of_int n / 2) = of_int n / 2"
  using fl_dyadic_exact [OF assms, of "- 1"] by (simp add: power_int_minus field_simps)

lemma fl_nine_halves: "fl (9 / 2) = 9 / 2"
  using fl_half_int [of 9] by simp

lemma unit_roundoff_upper: "(1 + unit_roundoff) / (1 - unit_roundoff) ^ 3 \<le> 1 + 1 / 2 ^ 50"
  by (simp add: unit_roundoff_def field_simps)

lemma unit_roundoff_lower: "1 - 1 / 2 ^ 50 \<le> (1 - unit_roundoff) / (1 + unit_roundoff) ^ 3"
  by (simp add: unit_roundoff_def field_simps)

lemma rounded_product_bounds:
  fixes a b :: real
  assumes a: "0 < a" and b: "0 < b"
  shows "a * b * (1 - unit_roundoff) ^ 3 \<le> fl (fl a * fl b)"
    and "fl (fl a * fl b) \<le> a * b * (1 + unit_roundoff) ^ 3"
proof -
  let ?u = unit_roundoff
  note u = unit_roundoff_bounds
  have la: "a * (1 - ?u) \<le> fl a" and ua: "fl a \<le> a * (1 + ?u)"
    using fl_lower [of a] fl_upper [of a] a by simp_all
  have lb: "b * (1 - ?u) \<le> fl b" and ub: "fl b \<le> b * (1 + ?u)"
    using fl_lower [of b] fl_upper [of b] b by simp_all
  have pa: "0 \<le> a * (1 - ?u)" and pb: "0 \<le> b * (1 - ?u)"
    using a b u by simp_all
  have fa: "0 \<le> fl a" and fb: "0 \<le> fl b"
    using a b by (simp_all add: fl_nonneg)
  have p: "0 \<le> fl a * fl b" using fa fb by simp
  have "a * (1 - ?u) * (b * (1 - ?u)) \<le> fl a * fl b"
    using la lb pa pb fa by (intro mult_mono) simp_all
  then have "a * (1 - ?u) * (b * (1 - ?u)) * (1 - ?u) \<le> fl a * fl b * (1 - ?u)"
    using u by (intro mult_right_mono) simp_all
  also have "\<dots> \<le> fl (fl a * fl b)" by (rule fl_lower [OF p])
  finally show "a * b * (1 - ?u) ^ 3 \<le> fl (fl a * fl b)"
    by (simp add: power3_eq_cube mult_ac)
  have "fl (fl a * fl b) \<le> fl a * fl b * (1 + ?u)" by (rule fl_upper [OF p])
  also have "\<dots> \<le> a * (1 + ?u) * (b * (1 + ?u)) * (1 + ?u)"
  proof (rule mult_right_mono)
    show "fl a * fl b \<le> a * (1 + ?u) * (b * (1 + ?u))"
      using ua ub fa fb a b u by (intro mult_mono) simp_all
    show "0 \<le> 1 + ?u" using u by simp
  qed
  finally show "fl (fl a * fl b) \<le> a * b * (1 + ?u) ^ 3"
    by (simp add: power3_eq_cube mult_ac)
qed

lemma rounded_quotient_upper:
  fixes n a b D :: real
  assumes n: "0 \<le> n" "n \<le> a * b" and ab: "0 < a" "0 < b"
    and D: "a * b * (1 - unit_roundoff) ^ 3 \<le> D"
  shows "0 \<le> fl (n / D)" "fl (n / D) \<le> 1 + 1 / 2 ^ 50"
proof -
  let ?u = unit_roundoff
  note u = unit_roundoff_bounds
  have L: "0 < (1 - ?u) ^ 3" using u by simp
  have c: "0 < a * b" using ab by simp
  have cL: "0 < a * b * (1 - ?u) ^ 3" using c L by simp
  then have D0: "0 < D" using D by linarith
  have q0: "0 \<le> n / D" using n(1) D0 by simp
  show "0 \<le> fl (n / D)" by (rule fl_nonneg [OF q0])
  have "n / D \<le> n / (a * b * (1 - ?u) ^ 3)"
    using n(1) D cL by (intro divide_left_mono) simp_all
  also have "\<dots> \<le> (a * b) / (a * b * (1 - ?u) ^ 3)"
    using n(2) cL by (intro divide_right_mono) simp_all
  also have "\<dots> = 1 / (1 - ?u) ^ 3"
    using ab by simp
  finally have q: "n / D \<le> 1 / (1 - ?u) ^ 3" .
  have "fl (n / D) \<le> n / D * (1 + ?u)" by (rule fl_upper [OF q0])
  also have "\<dots> \<le> 1 / (1 - ?u) ^ 3 * (1 + ?u)"
    using q u by (intro mult_right_mono) simp_all
  also have "\<dots> = (1 + ?u) / (1 - ?u) ^ 3" by simp
  also have "\<dots> \<le> 1 + 1 / 2 ^ 50" by (rule unit_roundoff_upper)
  finally show "fl (n / D) \<le> 1 + 1 / 2 ^ 50" .
qed

lemma rounded_quotient_lower:
  fixes a b D :: real
  assumes ab: "0 < a" "0 < b"
    and D: "0 < D" "D \<le> a * b * (1 + unit_roundoff) ^ 3"
  shows "1 - 1 / 2 ^ 50 \<le> fl (a * b / D)"
proof -
  let ?u = unit_roundoff
  note u = unit_roundoff_bounds
  have U: "0 < (1 + ?u) ^ 3" using u by simp
  have c: "0 < a * b" using ab by simp
  have q0: "0 \<le> a * b / D" using c D(1) by simp
  have "1 - 1 / 2 ^ 50 \<le> (1 - ?u) / (1 + ?u) ^ 3" by (rule unit_roundoff_lower)
  also have "\<dots> = 1 / (1 + ?u) ^ 3 * (1 - ?u)" by simp
  also have "\<dots> \<le> a * b / D * (1 - ?u)"
  proof (rule mult_right_mono)
    have "1 / (1 + ?u) ^ 3 = (a * b) / (a * b * (1 + ?u) ^ 3)"
      using ab by simp
    also have "\<dots> \<le> a * b / D"
      using c D by (intro divide_left_mono) simp_all
    finally show "1 / (1 + ?u) ^ 3 \<le> a * b / D" .
    show "0 \<le> 1 - ?u" using u by simp
  qed
  also have "\<dots> \<le> fl (a * b / D)" by (rule fl_lower [OF q0])
  finally show ?thesis .
qed


section \<open>Facts about lists\<close>

lemma filter_eq_singleton:
  "distinct xs \<Longrightarrow> x \<in> set xs \<Longrightarrow> filter (\<lambda>y. y = x) xs = [x]"
  by (induction xs) (auto simp: filter_empty_conv)

lemma filter_key_map:
  assumes "\<And>k. key (f k) = k" "distinct ks" "k \<in> set ks"
  shows "filter (\<lambda>r. key r = k) (map f ks) = [f k]"
proof -
  have "filter (\<lambda>r. key r = k) (map f ks) = map f (filter (\<lambda>y. y = k) ks)"
    by (simp add: filter_map comp_def assms(1))
  then show ?thesis
    by (simp add: filter_eq_singleton assms)
qed

lemma length_filter_concat:
  "length (filter P (concat xss)) = sum_list (map (\<lambda>xs. length (filter P xs)) xss)"
  by (induction xss) simp_all

lemma sum_list_indicator:
  "sum_list (map (\<lambda>x. if P x then 1 else 0) xs) = length (filter P xs)"
  by (induction xs) simp_all

lemma count_key:
  assumes "distinct (map f rs)"
  shows "length (filter (\<lambda>r. f r = k) rs) = (if k \<in> f ` set rs then 1 else 0)"
proof -
  have "length (filter (\<lambda>r. f r = k) rs) = length (filter (\<lambda>y. y = k) (map f rs))"
    by (simp add: filter_map comp_def)
  also have "\<dots> = (if k \<in> f ` set rs then 1 else 0)"
  proof (cases "k \<in> set (map f rs)")
    case True
    from filter_eq_singleton [OF assms True] True show ?thesis by simp
  next
    case False
    then have "filter (\<lambda>y. y = k) (map f rs) = []"
      by (auto simp: filter_empty_conv)
    with False show ?thesis by simp
  qed
  finally show ?thesis .
qed

lemma concat_map_if:
  "concat (map (\<lambda>x. if P x then [f x] else []) xs) = map f (filter P xs)"
  by (induction xs) simp_all


lemma remdups_single:
  "xs \<noteq> [] \<Longrightarrow> set xs \<subseteq> {x} \<Longrightarrow> remdups xs = [x]"
proof (induction xs)
  case Nil
  then show ?case by simp
next
  case (Cons y ys)
  then show ?case by (cases ys) auto
qed


section \<open>Properties of the quality filter\<close>

lemma map_movieID_filterGoodMovies:
  "map movieID (filterGoodMovies movies t) =
     filter (\<lambda>m. avgAtLeast (avg (ratingsOf movies m)) t) (remdups (map movieID movies))"
  by (simp add: filterGoodMovies_def movieAverages_def filter_map comp_def)

lemma movieID_filterGoodMovies:
  "movieID ` set (filterGoodMovies movies t) =
     {m \<in> movieID ` set movies. avgAtLeast (avg (ratingsOf movies m)) t}"
proof -
  have "movieID ` set (filterGoodMovies movies t) = set (map movieID (filterGoodMovies movies t))"
    by simp
  also have "\<dots> = {m \<in> movieID ` set movies. avgAtLeast (avg (ratingsOf movies m)) t}"
    unfolding map_movieID_filterGoodMovies by auto
  finally show ?thesis .
qed

lemma foldl_dsum_exact:
  assumes "\<bar>a\<bar> + sum_list (map abs rs) \<le> 2 ^ 53"
  shows "foldl (\<lambda>acc r. fl (acc + fl (of_int r))) (of_int a) rs = of_int (a + sum_list rs)"
  using assms
proof (induction rs arbitrary: a)
  case Nil
  then show ?case by simp
next
  case (Cons r rs)
  have nn: "0 \<le> sum_list (map abs rs)"
    by (rule sum_list_nonneg) auto
  have r: "\<bar>r\<bar> \<le> 2 ^ 53"
    using Cons.prems nn by simp
  have ar: "\<bar>a + r\<bar> \<le> 2 ^ 53"
    using Cons.prems nn by simp
  have step: "fl (of_int a + fl (of_int r)) = of_int (a + r)"
    using fl_int_exact [OF r] fl_int_exact [OF ar] by simp
  have "\<bar>a + r\<bar> + sum_list (map abs rs) \<le> 2 ^ 53"
    using Cons.prems by simp
  from Cons.IH [OF this] show ?case
    by (simp add: step add.assoc)
qed

lemma dsum_exact:
  assumes "sum_list (map abs rs) \<le> 2 ^ 53"
  shows "dsum rs = of_int (sum_list rs)"
  using foldl_dsum_exact [of 0 rs] assms by (simp add: dsum_def)

lemma avg_exact:
  assumes "nonNull xs \<noteq> []" "sum_list (map abs (nonNull xs)) \<le> 2 ^ 53"
    "length (nonNull xs) \<le> 2 ^ 53"
  shows "avg xs = Some (fl (mean (nonNull xs)))"
proof -
  have "\<bar>int (length (nonNull xs))\<bar> \<le> 2 ^ 53"
    using assms(3) by simp
  from fl_int_exact [OF this] have "fl (real (length (nonNull xs))) = real (length (nonNull xs))"
    by simp
  then show ?thesis
    using assms(1) dsum_exact [OF assms(2)] by (simp add: avg_def mean_def Let_def)
qed

lemma avg_None: "nonNull xs = [] \<Longrightarrow> avg xs = None"
  by (simp add: avg_def)

text \<open>
  Claim C5, as stated, fails at a threshold within rounding of a mean: the ratings 3, 3, 4
  have the mean 10/3, which is below the double 3.3333333333333335, and the source keeps
  the movie at that threshold, its average being this very double.
\<close>
theorem mean_rounding_counterexample:
  "mean [3, 3, 4] < 7505999378950827 / 2 ^ 51
   \<and> map rating thirdsMovies = [Some 3, Some 3, Some 4]
   \<and> map movieID (filterGoodMovies thirdsMovies (7505999378950827 / 2 ^ 51)) = [1]"
  by (simp add: mean_def thirdsMovies_def filterGoodMovies_def movieAverages_def ratingsOf_def
      avg_def dsum_def avgAtLeast_def fl_numeral_exact fl_ten_thirds)

text \<open>
  Claim C5, amended. For every rating relation and threshold, \<open>filterGoodMovies\<close> returns
  each item id once, and it returns exactly the ids that have a rating which is not null
  and whose arithmetic mean over these ratings, rounded to the nearest double, is at
  least the threshold. This holds for an item whose ratings are at most \<open>2^53\<close> in number and
  in the sum of their absolute values, so that the double sum is exact. The function is a
  total function of its two arguments: it has no error result and reads no state.
\<close>
theorem filterGoodMovies_exact:
  "(sum_list (map abs (nonNull (ratingsOf movies m))) \<le> 2 ^ 53
      \<and> length (nonNull (ratingsOf movies m)) \<le> 2 ^ 53 \<longrightarrow>
      (m \<in> movieID ` set (filterGoodMovies movies t) \<longleftrightarrow>
         m \<in> movieID ` set movies
         \<and> nonNull (ratingsOf movies m) \<noteq> []
         \<and> fl (mean (nonNull (ratingsOf movies m))) \<ge> t))
   \<and> distinct (map movieID (filterGoodMovies movies t))"
proof (intro conjI impI)
  assume h: "sum_list (map abs (nonNull (ratingsOf movies m))) \<le> 2 ^ 53
      \<and> length (nonNull (ratingsOf movies m)) \<le> 2 ^ 53"
  show "m \<in> movieID ` set (filterGoodMovies movies t) \<longleftrightarrow>
         m \<in> movieID ` set movies
         \<and> nonNull (ratingsOf movies m) \<noteq> []
         \<and> fl (mean (nonNull (ratingsOf movies m))) \<ge> t"
  proof (cases "nonNull (ratingsOf movies m) = []")
    case True
    then show ?thesis
      unfolding movieID_filterGoodMovies by (simp add: avg_None avgAtLeast_def)
  next
    case False
    from avg_exact [OF False] h
    have "avg (ratingsOf movies m) = Some (fl (mean (nonNull (ratingsOf movies m))))" by simp
    with False show ?thesis
      unfolding movieID_filterGoodMovies by (simp add: avgAtLeast_def)
  qed
next
  show "distinct (map movieID (filterGoodMovies movies t))"
    unfolding map_movieID_filterGoodMovies by simp
qed

theorem filterGoodMovies_exact_witness:
  "1 \<in> movieID ` set (filterGoodMovies exampleMovies 3)
   \<and> 3 \<notin> movieID ` set (filterGoodMovies exampleMovies 3)
   \<and> distinct (map movieID (filterGoodMovies exampleMovies 3))"
  using filterGoodMovies_exact [of exampleMovies 1 3] filterGoodMovies_exact [of exampleMovies 3 3]
  by (simp add: exampleMovies_def ratingsOf_def mean_def fl_nine_halves)

text \<open>
  Claim C9. For every rating relation and thresholds \<open>t1 \<le> t2\<close>, every row, and so every
  item id, that \<open>filterGoodMovies\<close> returns at \<open>t2\<close> it returns at \<open>t1\<close>: raising the
  threshold never adds an item.
\<close>
theorem filterGoodMovies_antimono:
  assumes "t1 \<le> t2"
  shows "set (filterGoodMovies movies t2) \<subseteq> set (filterGoodMovies movies t1)
       \<and> movieID ` set (filterGoodMovies movies t2) \<subseteq> movieID ` set (filterGoodMovies movies t1)"
  using assms by (auto simp: filterGoodMovies_def avgAtLeast_def split: option.splits)

theorem filterGoodMovies_antimono_witness:
  "(3::real) \<le> 5
   \<and> set (filterGoodMovies exampleMovies 5) \<subseteq> set (filterGoodMovies exampleMovies 3)
   \<and> movieID ` set (filterGoodMovies exampleMovies 5)
       \<subseteq> movieID ` set (filterGoodMovies exampleMovies 3)"
proof -
  have h: "(3::real) \<le> 5" by simp
  show ?thesis using h filterGoodMovies_antimono [OF h, of exampleMovies] by simp
qed


section \<open>Properties of the similarity aggregator\<close>

lemma keys_pairScores:
  "map (\<lambda>p. (movie1 p, movie2 p)) (pairScores data) = map (\<lambda>d. (movie1 d, movie2 d)) data"
  by (simp add: pairScores_def comp_def)

lemma pairGroup_pairScores:
  "pairGroup (pairScores data) (a, b) = pairScores (pairObservations data a b)"
  by (simp add: pairGroup_def pairScores_def pairObservations_def filter_map comp_def)

lemma calculateSimilarity_eq:
  "calculateSimilarity (pairScores data) =
     map (aggOf data) (remdups (map (\<lambda>d. (movie1 d, movie2 d)) data))"
  unfolding calculateSimilarity_def keys_pairScores
  by (rule map_cong) (auto simp: aggOf_def pairGroup_pairScores)

lemma computeCosineSimilarity_eq:
  "computeCosineSimilarity data =
     map (simOf data) (remdups (map (\<lambda>d. (movie1 d, movie2 d)) data))"
  by (simp add: computeCosineSimilarity_def calculateSimilarity_eq result_rows_def
      aggOf_def simOf_def comp_def)

lemma filter_pair_calculateSimilarity:
  assumes "(a, b) \<in> set (map (\<lambda>d. (movie1 d, movie2 d)) data)"
  shows "filter (\<lambda>c. movie1 c = a \<and> movie2 c = b) (calculateSimilarity (pairScores data))
           = [aggOf data (a, b)]"
proof -
  have "filter (\<lambda>c. (movie1 c, movie2 c) = (a, b))
          (map (aggOf data) (remdups (map (\<lambda>d. (movie1 d, movie2 d)) data)))
        = [aggOf data (a, b)]"
    using assms by (intro filter_key_map) (simp_all add: aggOf_def)
  then show ?thesis
    by (simp add: calculateSimilarity_eq)
qed

lemma filter_pair_computeCosineSimilarity:
  assumes "(a, b) \<in> set (map (\<lambda>d. (movie1 d, movie2 d)) data)"
  shows "filter (\<lambda>r. movie1 r = a \<and> movie2 r = b) (computeCosineSimilarity data)
           = [simOf data (a, b)]"
proof -
  have "filter (\<lambda>r. (movie1 r, movie2 r) = (a, b))
          (map (simOf data) (remdups (map (\<lambda>d. (movie1 d, movie2 d)) data)))
        = [simOf data (a, b)]"
    using assms by (intro filter_key_map) (simp_all add: simOf_def)
  then show ?thesis
    by (simp add: computeCosineSimilarity_eq)
qed

lemma in_computeCosineSimilarity:
  assumes "r \<in> set (computeCosineSimilarity data)"
  shows "r = simOf data (movie1 r, movie2 r)
       \<and> (movie1 r, movie2 r) \<in> set (map (\<lambda>d. (movie1 d, movie2 d)) data)"
  using assms by (auto simp: computeCosineSimilarity_eq simOf_def)

lemma pairObservations_nonempty:
  "(a, b) \<in> set (map (\<lambda>d. (movie1 d, movie2 d)) data) \<Longrightarrow> pairObservations data a b \<noteq> []"
  by (auto simp: pairObservations_def filter_empty_conv)


lemma count_xy:
  "countNonNull (map xy (pairScores obs)) = length (filter bothRated obs)"
proof (induction obs)
  case Nil
  show ?case by (simp add: countNonNull_def pairScores_def)
next
  case (Cons d obs)
  then show ?case
    by (cases "rating1 d"; cases "rating2 d")
       (simp_all add: countNonNull_def pairScores_def mul32_def bothRated_def)
qed

lemma numPairs_simOf:
  "numPairs (simOf data k) = length (filter bothRated (pairObservations data (fst k) (snd k)))"
  by (simp add: simOf_def aggOf_def count_xy)

text \<open>
  Claim C4, as stated, fails on a null rating: \<open>count("xy")\<close> counts the products that are
  not null, so a pair whose only observation lacks a rating is emitted with support 0 and
  score 0.
\<close>
theorem null_rating_counterexample:
  "computeCosineSimilarity [\<lparr>movie1 = 1, movie2 = 2, rating1 = None, rating2 = Some 5\<rparr>]
     = [\<lparr>movie1 = 1, movie2 = 2, numPairs = 0, score = Some (Fin 0)\<rparr>]"
  by (simp add: computeCosineSimilarity_eq simOf_def aggOf_def pairObservations_def
      pairScores_def mul32_def countNonNull_def sumLong_def sqrtOfSum_def mulNullable_def
      scoreOf_def)

text \<open>
  Claim C4, amended. Every row returned by \<open>computeCosineSimilarity\<close> is the row of a pair
  that has an observation, and its \<open>numPairs\<close> is the number of the pair's observations
  with both ratings present: it is at least 1 exactly when the pair has such an
  observation. A pair without observation has no row.
\<close>
theorem numPairs_counts_rated:
  assumes "r \<in> set (computeCosineSimilarity data)"
  shows "numPairs r = length (filter bothRated (pairObservations data (movie1 r) (movie2 r)))
       \<and> (\<exists>d \<in> set data. movie1 d = movie1 r \<and> movie2 d = movie2 r)
       \<and> (numPairs r \<ge> 1 \<longleftrightarrow>
            (\<exists>d \<in> set (pairObservations data (movie1 r) (movie2 r)). bothRated d))"
proof -
  from in_computeCosineSimilarity [OF assms]
  have r: "r = simOf data (movie1 r, movie2 r)"
    and k: "(movie1 r, movie2 r) \<in> set (map (\<lambda>d. (movie1 d, movie2 d)) data)"
    by simp_all
  have n: "numPairs r = length (filter bothRated (pairObservations data (movie1 r) (movie2 r)))"
    by (subst r) (simp add: numPairs_simOf)
  have "(1 \<le> length (filter bothRated (pairObservations data (movie1 r) (movie2 r))))
        \<longleftrightarrow> (\<exists>d \<in> set (pairObservations data (movie1 r) (movie2 r)). bothRated d)"
    by (cases "filter bothRated (pairObservations data (movie1 r) (movie2 r))")
       (auto simp: filter_empty_conv filter_eq_Cons_iff)
  with n k show ?thesis by auto
qed

lemma simOf_examplePairs_13:
  "simOf examplePairs (1, 3) \<in> set (computeCosineSimilarity examplePairs)"
  by (simp add: computeCosineSimilarity_eq examplePairs_def)

theorem numPairs_counts_rated_witness:
  "simOf examplePairs (1, 3) \<in> set (computeCosineSimilarity examplePairs)
   \<and> numPairs (simOf examplePairs (1, 3)) = 1
   \<and> (\<exists>d \<in> set examplePairs. movie1 d = 1 \<and> movie2 d = 3)
   \<and> (\<exists>d \<in> set (pairObservations examplePairs 1 3). bothRated d)"
proof -
  have k: "movie1 (simOf examplePairs (1, 3)) = 1" "movie2 (simOf examplePairs (1, 3)) = 3"
    by (simp_all add: simOf_def)
  have n: "length (filter bothRated (pairObservations examplePairs 1 3)) = 1"
    by (simp add: pairObservations_def examplePairs_def bothRated_def)
  show ?thesis
    using numPairs_counts_rated [OF simOf_examplePairs_13] simOf_examplePairs_13
    by (auto simp: k n)
qed

lemma ratingsWithin_D:
  assumes "ratingsWithin lo hi obs" "d \<in> set obs"
  shows "rating1 d = Some (ratingValue (rating1 d))" "rating2 d = Some (ratingValue (rating2 d))"
    "lo \<le> ratingValue (rating1 d)" "ratingValue (rating1 d) \<le> hi"
    "lo \<le> ratingValue (rating2 d)" "ratingValue (rating2 d) \<le> hi"
  using assms
  by (auto simp: ratingsWithin_def list_all_iff bothRated_def ratingValue_def split: option.splits)

lemma products_small:
  assumes "ratingsWithin (- 46340) 46340 obs"
  shows "map xy (pairScores obs) = map (\<lambda>d. Some (ratingValue (rating1 d) * ratingValue (rating2 d))) obs"
    and "map xx (pairScores obs) = map (\<lambda>d. Some (ratingValue (rating1 d) * ratingValue (rating1 d))) obs"
    and "map yy (pairScores obs) = map (\<lambda>d. Some (ratingValue (rating2 d) * ratingValue (rating2 d))) obs"
proof -
  have *: "mul32 (rating1 d) (rating2 d) = Some (ratingValue (rating1 d) * ratingValue (rating2 d))
         \<and> mul32 (rating1 d) (rating1 d) = Some (ratingValue (rating1 d) * ratingValue (rating1 d))
         \<and> mul32 (rating2 d) (rating2 d) = Some (ratingValue (rating2 d) * ratingValue (rating2 d))"
    if "d \<in> set obs" for d
  proof -
    note D = ratingsWithin_D [OF assms that]
    have a: "\<bar>ratingValue (rating1 d)\<bar> \<le> 46340" and b: "\<bar>ratingValue (rating2 d)\<bar> \<le> 46340"
      using D(3-6) by simp_all
    have "mul32 (Some (ratingValue (rating1 d))) (Some (ratingValue (rating2 d)))
            = Some (ratingValue (rating1 d) * ratingValue (rating2 d))"
         "mul32 (Some (ratingValue (rating1 d))) (Some (ratingValue (rating1 d)))
            = Some (ratingValue (rating1 d) * ratingValue (rating1 d))"
         "mul32 (Some (ratingValue (rating2 d))) (Some (ratingValue (rating2 d)))
            = Some (ratingValue (rating2 d) * ratingValue (rating2 d))"
      by (simp_all add: mul32_def wrap32_small_product a b)
    then show ?thesis using D(1,2) by simp
  qed
  show "map xy (pairScores obs) = map (\<lambda>d. Some (ratingValue (rating1 d) * ratingValue (rating2 d))) obs"
    using * by (simp add: pairScores_def comp_def)
  show "map xx (pairScores obs) = map (\<lambda>d. Some (ratingValue (rating1 d) * ratingValue (rating1 d))) obs"
    using * by (simp add: pairScores_def comp_def)
  show "map yy (pairScores obs) = map (\<lambda>d. Some (ratingValue (rating2 d) * ratingValue (rating2 d))) obs"
    using * by (simp add: pairScores_def comp_def)
qed

lemma sumLong_exact:
  assumes "obs \<noteq> []" "\<bar>sum_list (map f obs)\<bar> < 2 ^ 63"
  shows "sumLong (map (\<lambda>d. Some (f d)) obs) = Some (sum_list (map f obs))"
proof -
  have "wrap64 (sum_list (map f obs)) = sum_list (map f obs)"
    using assms(2) by (intro wrap64_id) linarith+
  then show ?thesis using assms(1) by (simp add: sumLong_def)
qed

lemma sum_products_bound:
  fixes f g :: "'a \<Rightarrow> int"
  assumes "\<forall>d \<in> set obs. \<bar>f d\<bar> \<le> 46340 \<and> \<bar>g d\<bar> \<le> 46340" "length obs \<le> 2 ^ 32"
  shows "\<bar>sum_list (map (\<lambda>d. f d * g d) obs)\<bar> < 2 ^ 63"
proof -
  have "\<forall>x \<in> set (map (\<lambda>d. f d * g d) obs). \<bar>x\<bar> \<le> 2147395600"
    using assms(1) small_product by auto
  from abs_sum_list_bound [OF this]
  have "\<bar>sum_list (map (\<lambda>d. f d * g d) obs)\<bar> \<le> 2147395600 * int (length obs)"
    by simp
  also have "\<dots> \<le> 2147395600 * 2 ^ 32"
    using assms(2) by (intro mult_left_mono) (simp_all add: of_nat_le_iff [of _ "2 ^ 32", simplified])
  also have "\<dots> < 2 ^ 63" by simp
  finally show ?thesis .
qed

lemma sumSquares1_nonneg: "0 \<le> sumSquares1 obs"
  unfolding sumSquares1_def by (induction obs) simp_all

lemma sumSquares2_nonneg: "0 \<le> sumSquares2 obs"
  unfolding sumSquares2_def by (induction obs) simp_all

lemma all_bothRated:
  "ratingsWithin lo hi obs \<Longrightarrow> filter bothRated obs = obs"
  by (auto simp: ratingsWithin_def list_all_iff intro: filter_True)

lemma aggOf_exact:
  assumes ne: "pairObservations data a b \<noteq> []"
    and w: "ratingsWithin (- 46340) 46340 (pairObservations data a b)"
    and n: "\<bar>specNumerator (pairObservations data a b)\<bar> < 2 ^ 63"
    and s1: "sumSquares1 (pairObservations data a b) < 2 ^ 63"
    and s2: "sumSquares2 (pairObservations data a b) < 2 ^ 63"
  shows "aggOf data (a, b) =
     \<lparr>movie1 = a, movie2 = b,
      numPairs = length (pairObservations data a b),
      numerator = Some (specNumerator (pairObservations data a b)),
      denominator = Some (specDenominator (pairObservations data a b))\<rparr>"
proof -
  let ?obs = "pairObservations data a b"
  have a1: "\<bar>sumSquares1 ?obs\<bar> < 2 ^ 63" and a2: "\<bar>sumSquares2 ?obs\<bar> < 2 ^ 63"
    using s1 s2 sumSquares1_nonneg [of ?obs] sumSquares2_nonneg [of ?obs] by simp_all
  have s12: "sumLong (map xy (pairScores ?obs)) = Some (specNumerator ?obs)"
    unfolding products_small(1) [OF w] specNumerator_def
    using n by (intro sumLong_exact [OF ne]) (simp add: specNumerator_def)
  have s11: "sumLong (map xx (pairScores ?obs)) = Some (sumSquares1 ?obs)"
    unfolding products_small(2) [OF w] sumSquares1_def
    using a1 by (intro sumLong_exact [OF ne]) (simp add: sumSquares1_def)
  have s22: "sumLong (map yy (pairScores ?obs)) = Some (sumSquares2 ?obs)"
    unfolding products_small(3) [OF w] sumSquares2_def
    using a2 by (intro sumLong_exact [OF ne]) (simp add: sumSquares2_def)
  show ?thesis
    by (simp add: aggOf_def count_xy all_bothRated [OF w] s12 s11 s22 sqrtOfSum_def
        mulNullable_def specDenominator_def)
qed

lemma simOf_exact:
  assumes "pairObservations data a b \<noteq> []"
    and "ratingsWithin (- 46340) 46340 (pairObservations data a b)"
    and "\<bar>specNumerator (pairObservations data a b)\<bar> < 2 ^ 63"
    and "sumSquares1 (pairObservations data a b) < 2 ^ 63"
    and "sumSquares2 (pairObservations data a b) < 2 ^ 63"
  shows "simOf data (a, b) =
     \<lparr>movie1 = a, movie2 = b,
      numPairs = length (pairObservations data a b),
      score = Some (specScore (pairObservations data a b))\<rparr>"
  unfolding simOf_def aggOf_exact [OF assms]
  by (simp add: scoreOf_def specScore_def)

lemma small_sums:
  assumes w: "ratingsWithin (- 46340) 46340 obs" and l: "length obs \<le> 2 ^ 32"
  shows "\<bar>specNumerator obs\<bar> < 2 ^ 63" "sumSquares1 obs < 2 ^ 63" "sumSquares2 obs < 2 ^ 63"
proof -
  have small: "\<forall>d \<in> set obs. \<bar>ratingValue (rating1 d)\<bar> \<le> 46340 \<and> \<bar>ratingValue (rating2 d)\<bar> \<le> 46340"
    using ratingsWithin_D(3-6) [OF w] by (simp add: abs_le_iff) fastforce
  show "\<bar>specNumerator obs\<bar> < 2 ^ 63"
    unfolding specNumerator_def using small l by (intro sum_products_bound) auto
  have "\<bar>sumSquares1 obs\<bar> < 2 ^ 63"
    unfolding sumSquares1_def using small l by (intro sum_products_bound) auto
  then show "sumSquares1 obs < 2 ^ 63" by simp
  have "\<bar>sumSquares2 obs\<bar> < 2 ^ 63"
    unfolding sumSquares2_def using small l by (intro sum_products_bound) auto
  then show "sumSquares2 obs < 2 ^ 63" by simp
qed

lemma aggOf_small:
  assumes k: "(a, b) \<in> set (map (\<lambda>d. (movie1 d, movie2 d)) data)"
    and w: "ratingsWithin (- 46340) 46340 (pairObservations data a b)"
    and l: "length (pairObservations data a b) \<le> 2 ^ 32"
  shows "aggOf data (a, b) =
     \<lparr>movie1 = a, movie2 = b,
      numPairs = length (pairObservations data a b),
      numerator = Some (specNumerator (pairObservations data a b)),
      denominator = Some (specDenominator (pairObservations data a b))\<rparr>"
  by (rule aggOf_exact [OF pairObservations_nonempty [OF k] w small_sums [OF w l]])

lemma simOf_small:
  assumes k: "(a, b) \<in> set (map (\<lambda>d. (movie1 d, movie2 d)) data)"
    and w: "ratingsWithin (- 46340) 46340 (pairObservations data a b)"
    and l: "length (pairObservations data a b) \<le> 2 ^ 32"
  shows "simOf data (a, b) =
     \<lparr>movie1 = a, movie2 = b,
      numPairs = length (pairObservations data a b),
      score = Some (specScore (pairObservations data a b))\<rparr>"
  unfolding simOf_def aggOf_small [OF assms]
  by (simp add: scoreOf_def specScore_def)

text \<open>
  Claim C1, as stated, fails where a product leaves the range of 32 bits: for the single
  observation with both ratings 50000 the sum of \<open>rating1 * rating2\<close> is 2500000000, the
  numerator of the source is -1794967296 and its denominator is NaN.
\<close>
theorem overflow_counterexample:
  "calculateSimilarity (pairScores [\<lparr>movie1 = 1, movie2 = 2, rating1 = Some 50000, rating2 = Some 50000\<rparr>])
     = [\<lparr>movie1 = 1, movie2 = 2, numPairs = 1,
         numerator = Some (- 1794967296), denominator = Some NaN\<rparr>]
   \<and> specNumerator [\<lparr>movie1 = 1, movie2 = 2, rating1 = Some 50000, rating2 = Some 50000\<rparr>]
       = 2500000000"
  unfolding calculateSimilarity_eq
  by (simp add: aggOf_def pairObservations_def pairScores_def mul32_def
      wrap32_def wrap64_def countNonNull_def sumLong_def sqrtOfSum_def mulNullable_def
      of_long_def fl_neg_numeral_exact specNumerator_def ratingValue_def)

text \<open>
  Claim C1, amended. For every pair \<open>(a, b)\<close> occurring in the co-rating relation whose
  observations have both ratings present, at most 46340 in absolute value, and are at most
  \<open>2^32\<close> in number, the aggregation has exactly one row for it: in \<open>calculateSimilarity\<close>
  with the numerator \<open>\<Sum> rating1 * rating2\<close>, the denominator
  \<open>sqrt (\<Sum> rating1\<^sup>2) * sqrt (\<Sum> rating2\<^sup>2)\<close> computed in doubles and the count of the pair's
  observations, and in the returned relation with the score numerator / denominator,
  computed in doubles, when the denominator is not zero and 0 otherwise, and the same
  count as \<open>numPairs\<close>.
\<close>
theorem computeCosineSimilarity_row:
  assumes "(a, b) \<in> set (map (\<lambda>d. (movie1 d, movie2 d)) data)"
    and "ratingsWithin (- 46340) 46340 (pairObservations data a b)"
    and "length (pairObservations data a b) \<le> 2 ^ 32"
  shows "\<exists>c r.
      filter (\<lambda>c. movie1 c = a \<and> movie2 c = b) (calculateSimilarity (pairScores data)) = [c]
    \<and> numerator c = Some (specNumerator (pairObservations data a b))
    \<and> denominator c = Some (specDenominator (pairObservations data a b))
    \<and> numPairs c = length (pairObservations data a b)
    \<and> filter (\<lambda>r. movie1 r = a \<and> movie2 r = b) (computeCosineSimilarity data) = [r]
    \<and> score r = Some (specScore (pairObservations data a b))
    \<and> numPairs r = length (pairObservations data a b)"
  using filter_pair_calculateSimilarity [OF assms(1)]
    filter_pair_computeCosineSimilarity [OF assms(1)]
  by (simp add: aggOf_small [OF assms] simOf_small [OF assms])

lemma examplePairs_obs12:
  "pairObservations examplePairs 1 2 =
     [\<lparr>movie1 = 1, movie2 = 2, rating1 = Some 5, rating2 = Some 5\<rparr>,
      \<lparr>movie1 = 1, movie2 = 2, rating1 = Some 4, rating2 = Some 4\<rparr>]"
  by (simp add: pairObservations_def examplePairs_def)

theorem computeCosineSimilarity_row_witness:
  "\<exists>c r.
      filter (\<lambda>c. movie1 c = 1 \<and> movie2 c = 2) (calculateSimilarity (pairScores examplePairs)) = [c]
    \<and> numerator c = Some 41
    \<and> denominator c = Some (dmul (dsqrt (of_long 41)) (dsqrt (of_long 41)))
    \<and> numPairs c = 2
    \<and> filter (\<lambda>r. movie1 r = 1 \<and> movie2 r = 2) (computeCosineSimilarity examplePairs) = [r]
    \<and> score r = Some (specScore (pairObservations examplePairs 1 2))
    \<and> numPairs r = 2"
proof -
  have k: "(1, 2) \<in> set (map (\<lambda>d. (movie1 d, movie2 d)) examplePairs)"
    by (simp add: examplePairs_def)
  have w: "ratingsWithin (- 46340) 46340 (pairObservations examplePairs 1 2)"
    by (simp add: examplePairs_obs12 ratingsWithin_def bothRated_def ratingValue_def)
  have l: "length (pairObservations examplePairs 1 2) \<le> 2 ^ 32"
    by (simp add: examplePairs_obs12)
  have n: "specNumerator (pairObservations examplePairs 1 2) = 41"
    "sumSquares1 (pairObservations examplePairs 1 2) = 41"
    "sumSquares2 (pairObservations examplePairs 1 2) = 41"
    by (simp_all add: examplePairs_obs12 specNumerator_def sumSquares1_def sumSquares2_def
        ratingValue_def)
  show ?thesis
    using computeCosineSimilarity_row [OF k w l]
    by (simp add: n specDenominator_def numeral_2_eq_2 examplePairs_obs12 [THEN arg_cong, of length])
qed


section \<open>The range of the score\<close>

lemma cauchy_step:
  fixes a p q A B :: real
  assumes "a \<le> sqrt A * sqrt B" "0 \<le> A" "0 \<le> B"
  shows "a + p * q \<le> sqrt (A + p * p) * sqrt (B + q * q)"
proof -
  define u v where "u = sqrt A" and "v = sqrt B"
  have uv: "0 \<le> u" "0 \<le> v" "u * u = A" "v * v = B"
    using assms(2,3) by (simp_all add: u_def v_def)
  have "(u * v + p * q)\<^sup>2 + (u * q - v * p)\<^sup>2 = (u * u + p * p) * (v * v + q * q)"
    by (simp add: power2_eq_square algebra_simps)
  then have "(u * v + p * q)\<^sup>2 + (u * q - v * p)\<^sup>2 = (A + p * p) * (B + q * q)"
    by (simp only: uv)
  moreover have "0 \<le> (u * q - v * p)\<^sup>2"
    by (rule zero_le_power2)
  ultimately have sq: "(u * v + p * q)\<^sup>2 \<le> (A + p * p) * (B + q * q)"
    by linarith
  have "a + p * q \<le> u * v + p * q"
    using assms(1) by (simp add: u_def v_def)
  also have "\<dots> \<le> \<bar>u * v + p * q\<bar>"
    by simp
  also have "\<dots> = sqrt ((u * v + p * q)\<^sup>2)"
    by simp
  also have "\<dots> \<le> sqrt ((A + p * p) * (B + q * q))"
    using sq by (simp only: real_sqrt_le_iff)
  also have "\<dots> = sqrt (A + p * p) * sqrt (B + q * q)"
    by (rule real_sqrt_mult)
  finally show ?thesis .
qed

lemma specNumerator_le_exactDenominator:
  "real_of_int (specNumerator obs) \<le> exactDenominator obs"
proof (induction obs)
  case Nil
  show ?case by (simp add: specNumerator_def exactDenominator_def sumSquares1_def sumSquares2_def)
next
  case (Cons d obs)
  have "real_of_int (specNumerator obs)
          + real_of_int (ratingValue (rating1 d)) * real_of_int (ratingValue (rating2 d))
        \<le> sqrt (real_of_int (sumSquares1 obs)
                 + real_of_int (ratingValue (rating1 d)) * real_of_int (ratingValue (rating1 d)))
        * sqrt (real_of_int (sumSquares2 obs)
                 + real_of_int (ratingValue (rating2 d)) * real_of_int (ratingValue (rating2 d)))"
    using Cons.IH sumSquares1_nonneg [of obs] sumSquares2_nonneg [of obs]
    by (intro cauchy_step) (simp_all add: exactDenominator_def)
  then show ?case
    by (simp add: specNumerator_def exactDenominator_def sumSquares1_def sumSquares2_def add.commute)
qed

lemma exactDenominator_nonneg: "0 \<le> exactDenominator obs"
  by (simp add: exactDenominator_def sumSquares1_nonneg sumSquares2_nonneg)

lemma exactScore_le_1: "exactScore obs \<le> 1"
  using specNumerator_le_exactDenominator [of obs] exactDenominator_nonneg [of obs]
  by (simp add: exactScore_def divide_le_eq_1)

lemma sqrt_of_long:
  assumes "0 \<le> A" "A \<le> 2 ^ 53"
  shows "dsqrt (of_long A) = Fin (fl (sqrt (real_of_int A)))"
proof -
  have "\<bar>A\<bar> \<le> 2 ^ 53" using assms by simp
  from fl_int_exact [OF this] assms(1) show ?thesis
    by (simp add: of_long_def)
qed

lemma specScore_rounded:
  assumes A: "1 \<le> sumSquares1 obs" "sumSquares1 obs \<le> 2 ^ 53"
    and B: "1 \<le> sumSquares2 obs" "sumSquares2 obs \<le> 2 ^ 53"
    and N: "\<bar>specNumerator obs\<bar> \<le> 2 ^ 53"
  shows "specScore obs =
     Fin (fl (real_of_int (specNumerator obs)
              / fl (fl (sqrt (real_of_int (sumSquares1 obs)))
                    * fl (sqrt (real_of_int (sumSquares2 obs))))))"
    and "0 < fl (fl (sqrt (real_of_int (sumSquares1 obs)))
                 * fl (sqrt (real_of_int (sumSquares2 obs))))"
proof -
  let ?a = "sqrt (real_of_int (sumSquares1 obs))"
  let ?b = "sqrt (real_of_int (sumSquares2 obs))"
  have a: "0 < ?a" and b: "0 < ?b" using A(1) B(1) by simp_all
  have "0 < ?a * ?b * (1 - unit_roundoff) ^ 3"
    using a b unit_roundoff_bounds by simp
  with rounded_product_bounds(1) [OF a b]
  show D: "0 < fl (fl ?a * fl ?b)" by linarith
  have den: "specDenominator obs = Fin (fl (fl ?a * fl ?b))"
    using A B by (simp add: specDenominator_def sqrt_of_long)
  have num: "of_long (specNumerator obs) = Fin (real_of_int (specNumerator obs))"
    using fl_int_exact [OF N] by (simp add: of_long_def)
  show "specScore obs = Fin (fl (real_of_int (specNumerator obs) / fl (fl ?a * fl ?b)))"
    using D by (simp add: specScore_def den num)
qed

lemma sums_within_1_5:
  assumes "ratingsWithin 1 5 obs"
  shows "int (length obs) \<le> sumSquares1 obs \<and> sumSquares1 obs \<le> 25 * int (length obs)
       \<and> int (length obs) \<le> sumSquares2 obs \<and> sumSquares2 obs \<le> 25 * int (length obs)
       \<and> int (length obs) \<le> specNumerator obs \<and> specNumerator obs \<le> 25 * int (length obs)"
  using assms
proof (induction obs)
  case Nil
  show ?case by (simp add: sumSquares1_def sumSquares2_def specNumerator_def)
next
  case (Cons d obs)
  then have w: "ratingsWithin 1 5 obs" by (simp add: ratingsWithin_def)
  from Cons.prems have r: "1 \<le> ratingValue (rating1 d)" "ratingValue (rating1 d) \<le> 5"
    "1 \<le> ratingValue (rating2 d)" "ratingValue (rating2 d) \<le> 5"
    by (simp_all add: ratingsWithin_def)
  have p: "1 \<le> x * y \<and> x * y \<le> 25" if "1 \<le> x" "x \<le> 5" "1 \<le> y" "y \<le> 5" for x y :: int
  proof
    have "1 * 1 \<le> x * y" using that by (intro mult_mono) simp_all
    then show "1 \<le> x * y" by simp
    have "x * y \<le> 5 * 5" using that by (intro mult_mono) simp_all
    then show "x * y \<le> 25" by simp
  qed
  from p [OF r(1,2) r(1,2)] p [OF r(3,4) r(3,4)] p [OF r(1,2) r(3,4)] Cons.IH [OF w]
  show ?case
    by (simp add: sumSquares1_def sumSquares2_def specNumerator_def)
qed

lemma ratingsWithin_mono:
  "ratingsWithin lo hi obs \<Longrightarrow> lo' \<le> lo \<Longrightarrow> hi \<le> hi' \<Longrightarrow> ratingsWithin lo' hi' obs"
  by (auto simp: ratingsWithin_def list_all_iff)

lemma ratingsWithin_pairObservations:
  "ratingsWithin lo hi data \<Longrightarrow> ratingsWithin lo hi (pairObservations data a b)"
  by (auto simp: ratingsWithin_def list_all_iff pairObservations_def)

lemma roundingPairs_obs: "pairObservations roundingPairs 1 2 = roundingPairs"
  by (simp add: pairObservations_def roundingPairs_def)

lemma roundingPairs_sums:
  "sumSquares1 roundingPairs = 59" "sumSquares2 roundingPairs = 59"
  "specNumerator roundingPairs = 59" "length roundingPairs = 3"
  by (simp_all add: roundingPairs_def sumSquares1_def sumSquares2_def specNumerator_def
      ratingValue_def)

lemma roundingPairs_within: "ratingsWithin 1 5 roundingPairs"
  by (simp add: roundingPairs_def ratingsWithin_def bothRated_def ratingValue_def)

lemma specScore_roundingPairs: "specScore roundingPairs = Fin (4503599627370497 / 2 ^ 52)"
proof -
  have "specScore roundingPairs =
     Fin (fl (real_of_int (specNumerator roundingPairs)
              / fl (fl (sqrt (real_of_int (sumSquares1 roundingPairs)))
                    * fl (sqrt (real_of_int (sumSquares2 roundingPairs))))))"
    by (rule specScore_rounded(1)) (simp_all add: roundingPairs_sums)
  also have "\<dots> = Fin (fl (59 / fl (fl (sqrt 59) * fl (sqrt 59))))"
    by (simp add: roundingPairs_sums)
  also have "\<dots> = Fin (fl (59 / fl (8648201281969883 / 2 ^ 50 * (8648201281969883 / 2 ^ 50))))"
    by (simp only: fl_sqrt_59)
  also have "\<dots> = Fin (fl (59 / (8303511812964351 / 2 ^ 47)))"
    by (simp only: fl_sqrt_59_squared)
  also have "\<dots> = Fin (4503599627370497 / 2 ^ 52)"
    by (simp only: fl_59_over)
  finally show ?thesis .
qed

lemma computeCosineSimilarity_roundingPairs:
  "computeCosineSimilarity roundingPairs =
     [\<lparr>movie1 = 1, movie2 = 2, numPairs = 3, score = Some (Fin (4503599627370497 / 2 ^ 52))\<rparr>]"
proof -
  have keys: "remdups (map (\<lambda>d. (movie1 d, movie2 d)) roundingPairs) = [(1, 2)]"
    by (simp add: roundingPairs_def)
  have "simOf roundingPairs (1, 2) =
     \<lparr>movie1 = 1, movie2 = 2, numPairs = length (pairObservations roundingPairs 1 2),
      score = Some (specScore (pairObservations roundingPairs 1 2))\<rparr>"
    by (rule simOf_exact)
       (simp_all add: roundingPairs_obs roundingPairs_sums
          ratingsWithin_mono [OF roundingPairs_within], simp add: roundingPairs_def)
  then show ?thesis
    by (simp add: computeCosineSimilarity_eq keys roundingPairs_obs roundingPairs_sums
        specScore_roundingPairs)
qed

text \<open>
  Claim C7, as stated, fails by one rounding: for three co-rating users who gave both
  movies the ratings 5, 5 and 3, the sums are 59, the product of the rounded roots is the
  double just below 59 and the score is the double just above 1.
\<close>
theorem rounding_counterexample:
  "ratingsWithin 1 5 roundingPairs
   \<and> computeCosineSimilarity roundingPairs =
       [\<lparr>movie1 = 1, movie2 = 2, numPairs = 3, score = Some (Fin (4503599627370497 / 2 ^ 52))\<rparr>]
   \<and> (1::real) < 4503599627370497 / 2 ^ 52"
  by (simp add: roundingPairs_within computeCosineSimilarity_roundingPairs)

text \<open>
  Claim C7, amended. For every input in which each rating is an integer between 1 and 5,
  every emitted score of a pair with at most \<open>2^48\<close> observations is a number between 0 and
  \<open>1 + 2^-50\<close>; the cosine itself, computed without rounding, lies between 0 and 1 by the
  Cauchy-Schwarz inequality.
\<close>
theorem score_bounded:
  assumes w: "ratingsWithin 1 5 data"
    and r: "r \<in> set (computeCosineSimilarity data)"
    and l: "numPairs r \<le> 2 ^ 48"
  shows "\<exists>s. score r = Some (Fin s) \<and> 0 \<le> s \<and> s \<le> 1 + 1 / 2 ^ 50
           \<and> 0 \<le> exactScore (pairObservations data (movie1 r) (movie2 r))
           \<and> exactScore (pairObservations data (movie1 r) (movie2 r)) \<le> 1"
proof -
  let ?obs = "pairObservations data (movie1 r) (movie2 r)"
  from in_computeCosineSimilarity [OF r]
  have req: "r = simOf data (movie1 r, movie2 r)"
    and k: "(movie1 r, movie2 r) \<in> set (map (\<lambda>d. (movie1 d, movie2 d)) data)"
    by simp_all
  have ne: "?obs \<noteq> []" by (rule pairObservations_nonempty [OF k])
  have w15: "ratingsWithin 1 5 ?obs" by (rule ratingsWithin_pairObservations [OF w])
  have wb: "ratingsWithin (- 46340) 46340 ?obs"
    by (rule ratingsWithin_mono [OF w15]) simp_all
  have "numPairs r = length (filter bothRated ?obs)"
    by (subst req) (simp add: numPairs_simOf)
  then have len: "length ?obs \<le> 2 ^ 48"
    using l by (simp add: all_bothRated [OF w15])
  then have len': "int (length ?obs) \<le> 2 ^ 48"
    by (simp add: of_nat_le_iff [of _ "2 ^ 48", simplified])
  have len1: "1 \<le> int (length ?obs)"
    using ne by (cases ?obs) simp_all
  note S = sums_within_1_5 [OF w15]
  have A: "1 \<le> sumSquares1 ?obs" "sumSquares1 ?obs \<le> 2 ^ 53"
    and B: "1 \<le> sumSquares2 ?obs" "sumSquares2 ?obs \<le> 2 ^ 53"
    and N: "1 \<le> specNumerator ?obs" "specNumerator ?obs \<le> 2 ^ 53"
    using S len' len1 by simp_all
  have N': "\<bar>specNumerator ?obs\<bar> \<le> 2 ^ 53" using N by simp
  have sim: "simOf data (movie1 r, movie2 r) =
     \<lparr>movie1 = movie1 r, movie2 = movie2 r, numPairs = length ?obs,
      score = Some (specScore ?obs)\<rparr>"
    using A B N by (intro simOf_exact [OF ne wb]) simp_all
  let ?a = "sqrt (real_of_int (sumSquares1 ?obs))"
  let ?b = "sqrt (real_of_int (sumSquares2 ?obs))"
  let ?D = "fl (fl ?a * fl ?b)"
  let ?s = "fl (real_of_int (specNumerator ?obs) / ?D)"
  have sc: "score r = Some (Fin ?s)"
    by (subst req) (simp add: sim specScore_rounded(1) [OF A B N'])
  have a: "0 < ?a" and b: "0 < ?b" using A(1) B(1) by simp_all
  have cs: "real_of_int (specNumerator ?obs) \<le> ?a * ?b"
    using specNumerator_le_exactDenominator [of ?obs] by (simp add: exactDenominator_def)
  have n0: "0 \<le> real_of_int (specNumerator ?obs)" using N(1) by simp
  note q = rounded_quotient_upper [OF n0 cs a b rounded_product_bounds(1) [OF a b]]
  have e0: "0 \<le> exactScore ?obs"
    using n0 exactDenominator_nonneg [of ?obs] by (simp add: exactScore_def)
  show ?thesis
    using sc q e0 exactScore_le_1 [of ?obs] by blast
qed

theorem score_bounded_witness:
  "\<exists>s. Some (Fin (4503599627370497 / 2 ^ 52)) = Some (Fin s) \<and> 0 \<le> s \<and> s \<le> 1 + 1 / 2 ^ 50
         \<and> 0 \<le> exactScore (pairObservations roundingPairs 1 2)
         \<and> exactScore (pairObservations roundingPairs 1 2) \<le> 1"
proof -
  have r: "\<lparr>movie1 = 1, movie2 = 2, numPairs = 3, score = Some (Fin (4503599627370497 / 2 ^ 52))\<rparr>
             \<in> set (computeCosineSimilarity roundingPairs)"
    by (simp add: computeCosineSimilarity_roundingPairs)
  show ?thesis
    using score_bounded [OF roundingPairs_within r] by simp
qed

lemma identical_sums:
  assumes "\<forall>d \<in> set obs. rating1 d = rating2 d"
  shows "specNumerator obs = sumSquares1 obs" "sumSquares2 obs = sumSquares1 obs"
proof -
  have "specNumerator obs = sumSquares1 obs \<and> sumSquares2 obs = sumSquares1 obs"
    using assms by (induction obs) (simp_all add: specNumerator_def sumSquares1_def sumSquares2_def)
  then show "specNumerator obs = sumSquares1 obs" "sumSquares2 obs = sumSquares1 obs"
    by simp_all
qed

lemma sumSquares1_pos:
  assumes "\<exists>d \<in> set obs. ratingValue (rating1 d) \<noteq> 0"
  shows "1 \<le> sumSquares1 obs"
  using assms
proof (induction obs)
  case Nil
  then show ?case by simp
next
  case (Cons d obs)
  have sq: "0 \<le> ratingValue (rating1 d) * ratingValue (rating1 d)" by simp
  have rest: "0 \<le> sumSquares1 obs" by (rule sumSquares1_nonneg)
  show ?case
  proof (cases "ratingValue (rating1 d) = 0")
    case True
    with Cons show ?thesis by (simp add: sumSquares1_def)
  next
    case False
    then have "0 < ratingValue (rating1 d) * ratingValue (rating1 d)"
      by (cases "0 < ratingValue (rating1 d)") (simp_all add: zero_less_mult_iff)
    then have "1 \<le> ratingValue (rating1 d) * ratingValue (rating1 d)" by simp
    with rest show ?thesis by (simp add: sumSquares1_def)
  qed
qed

lemma identical_specScore:
  assumes same: "\<forall>d \<in> set obs. rating1 d = rating2 d"
    and S1: "1 \<le> sumSquares1 obs" and S: "sumSquares1 obs \<le> 2 ^ 53"
  shows "\<exists>s. specScore obs = Fin s \<and> \<bar>s - 1\<bar> \<le> 1 / 2 ^ 50"
proof -
  let ?S = "sumSquares1 obs"
  note eq = identical_sums [OF same]
  let ?a = "sqrt (real_of_int ?S)"
  let ?D = "fl (fl ?a * fl ?a)"
  let ?s = "fl (real_of_int ?S / ?D)"
  have sc: "specScore obs = Fin ?s"
    using specScore_rounded(1) [of obs] S S1 by (simp add: eq)
  have D0: "0 < ?D"
    using specScore_rounded(2) [of obs] S S1 by (simp add: eq)
  have a: "0 < ?a" using S1 by simp
  have aa: "real_of_int ?S = ?a * ?a" using S1 by simp
  have up: "?s \<le> 1 + 1 / 2 ^ 50"
    using rounded_quotient_upper(2) [OF _ _ a a rounded_product_bounds(1) [OF a a], of "real_of_int ?S"]
      S1 by (simp add: aa [symmetric])
  have "1 - 1 / 2 ^ 50 \<le> fl (?a * ?a / ?D)"
    by (rule rounded_quotient_lower [OF a a D0 rounded_product_bounds(2) [OF a a]])
  then have lo: "1 - 1 / 2 ^ 50 \<le> ?s"
    by (simp only: aa [symmetric])
  have "\<bar>?s - 1\<bar> \<le> 1 / 2 ^ 50" using up lo by linarith
  with sc show ?thesis by blast
qed

text \<open>
  Claim C8, as stated, fails in three ways. Where every co-rating user gave both movies
  the rating 0, both norms are 0 and the zero guard of the source gives the score 0. Where
  both ratings are 65536 the squares wrap to 0 at 32 bits, with the same result. Where
  both are 50000 the squares wrap to a negative number and the score is NaN.
\<close>
theorem identical_ratings_counterexample:
  "computeCosineSimilarity [\<lparr>movie1 = 1, movie2 = 2, rating1 = Some 0, rating2 = Some 0\<rparr>]
     = [\<lparr>movie1 = 1, movie2 = 2, numPairs = 1, score = Some (Fin 0)\<rparr>]
   \<and> computeCosineSimilarity [\<lparr>movie1 = 1, movie2 = 2, rating1 = Some 65536, rating2 = Some 65536\<rparr>]
     = [\<lparr>movie1 = 1, movie2 = 2, numPairs = 1, score = Some (Fin 0)\<rparr>]
   \<and> computeCosineSimilarity [\<lparr>movie1 = 1, movie2 = 2, rating1 = Some 50000, rating2 = Some 50000\<rparr>]
     = [\<lparr>movie1 = 1, movie2 = 2, numPairs = 1, score = Some NaN\<rparr>]"
  unfolding computeCosineSimilarity_eq
  by (simp add: simOf_def aggOf_def pairObservations_def pairScores_def mul32_def
      wrap32_def wrap64_def countNonNull_def sumLong_def sqrtOfSum_def mulNullable_def
      of_long_def fl_neg_numeral_exact scoreOf_def)

text \<open>
  Claim C8, amended. For every pair such that every co-rating user gave both movies of
  the pair the same rating, present and at most 46340 in absolute value, with at least one
  of these ratings not 0 and the sum of their squares at most \<open>2^53\<close>, the row of the pair
  has a score within \<open>2^-50\<close> of 1.
\<close>
theorem identical_ratings_score:
  assumes w: "ratingsWithin (- 46340) 46340 (pairObservations data a b)"
    and same: "\<forall>d \<in> set (pairObservations data a b). rating1 d = rating2 d"
    and nz: "\<exists>d \<in> set (pairObservations data a b). rating1 d \<noteq> Some 0"
    and S: "sumSquares1 (pairObservations data a b) \<le> 2 ^ 53"
  shows "\<exists>r s. filter (\<lambda>r. movie1 r = a \<and> movie2 r = b) (computeCosineSimilarity data) = [r]
            \<and> score r = Some (Fin s) \<and> \<bar>s - 1\<bar> \<le> 1 / 2 ^ 50"
proof -
  let ?obs = "pairObservations data a b"
  let ?S = "sumSquares1 ?obs"
  from nz have ne: "?obs \<noteq> []" by auto
  from nz have k: "(a, b) \<in> set (map (\<lambda>d. (movie1 d, movie2 d)) data)"
    by (auto simp: pairObservations_def image_iff)
  note eq = identical_sums [OF same]
  have "\<exists>d \<in> set ?obs. ratingValue (rating1 d) \<noteq> 0"
  proof -
    from nz obtain d where d: "d \<in> set ?obs" "rating1 d \<noteq> Some 0" by blast
    from ratingsWithin_D(1) [OF w d(1)] d(2) have "ratingValue (rating1 d) \<noteq> 0" by auto
    with d(1) show ?thesis by blast
  qed
  then have S1: "1 \<le> ?S" by (rule sumSquares1_pos)
  have sim: "simOf data (a, b) =
     \<lparr>movie1 = a, movie2 = b, numPairs = length ?obs, score = Some (specScore ?obs)\<rparr>"
    using S S1 by (intro simOf_exact [OF ne w]) (simp_all add: eq)
  from identical_specScore [OF same S1 S]
  obtain s where "specScore ?obs = Fin s" "\<bar>s - 1\<bar> \<le> 1 / 2 ^ 50" by blast
  with filter_pair_computeCosineSimilarity [OF k] sim show ?thesis by simp
qed

theorem identical_ratings_score_witness:
  "\<exists>r s. filter (\<lambda>r. movie1 r = 1 \<and> movie2 r = 2) (computeCosineSimilarity examplePairs) = [r]
            \<and> score r = Some (Fin s) \<and> \<bar>s - 1\<bar> \<le> 1 / 2 ^ 50"
proof -
  have w: "ratingsWithin (- 46340) 46340 (pairObservations examplePairs 1 2)"
    by (simp add: examplePairs_obs12 ratingsWithin_def bothRated_def ratingValue_def)
  have same: "\<forall>d \<in> set (pairObservations examplePairs 1 2). rating1 d = rating2 d"
    by (simp add: examplePairs_obs12)
  have nz: "\<exists>d \<in> set (pairObservations examplePairs 1 2). rating1 d \<noteq> Some 0"
    by (simp add: examplePairs_obs12)
  have S: "sumSquares1 (pairObservations examplePairs 1 2) \<le> 2 ^ 53"
    by (simp add: examplePairs_obs12 sumSquares1_def ratingValue_def)
  show ?thesis by (rule identical_ratings_score [OF w same nz S])
qed


section \<open>Properties of the co-rating pair generator\<close>

lemma join_count:
  fixes rs :: "rating_row list"
  assumes d: "distinct (map ratingKey rs)" and lt: "\<And>r. A r \<Longrightarrow> movieID r < b"
  shows "length (filter (\<lambda>j. A (fst j) \<and> movieID (snd j) = b) (joinRatings rs))
       = length (filter (\<lambda>r1. A r1 \<and> (userID r1, b) \<in> ratingKey ` set rs) rs)"
proof -
  have inner: "length (filter (\<lambda>j. A (fst j) \<and> movieID (snd j) = b)
                  (map (\<lambda>ratings2. (r1, ratings2))
                     (filter (\<lambda>ratings2. userID ratings2 = userID r1
                                        \<and> movieID ratings2 > movieID r1) rs)))
               = (if A r1 \<and> (userID r1, b) \<in> ratingKey ` set rs then 1 else 0)" for r1
  proof (cases "A r1")
    case True
    have f: "filter (\<lambda>x. userID x = userID r1 \<and> movieID r1 < movieID x \<and> movieID x = b) rs
             = filter (\<lambda>r. ratingKey r = (userID r1, b)) rs"
      using lt [OF True] by (intro filter_cong) (auto simp: ratingKey_def)
    have "filter (\<lambda>j. A (fst j) \<and> movieID (snd j) = b)
            (map (\<lambda>ratings2. (r1, ratings2))
               (filter (\<lambda>ratings2. userID ratings2 = userID r1 \<and> movieID ratings2 > movieID r1) rs))
          = map (\<lambda>ratings2. (r1, ratings2)) (filter (\<lambda>r. ratingKey r = (userID r1, b)) rs)"
      using True by (simp add: filter_map comp_def f)
    then show ?thesis
      using True count_key [OF d, of "(userID r1, b)"] by simp
  next
    case False
    then show ?thesis by (simp add: filter_map comp_def)
  qed
  have "length (filter (\<lambda>j. A (fst j) \<and> movieID (snd j) = b) (joinRatings rs))
        = (\<Sum>r1\<leftarrow>rs. length (filter (\<lambda>j. A (fst j) \<and> movieID (snd j) = b)
                  (map (\<lambda>ratings2. (r1, ratings2))
                     (filter (\<lambda>ratings2. userID ratings2 = userID r1
                                        \<and> movieID ratings2 > movieID r1) rs))))"
    unfolding joinRatings_def length_filter_concat map_map comp_def ..
  also have "\<dots> = (\<Sum>r1\<leftarrow>rs. if A r1 \<and> (userID r1, b) \<in> ratingKey ` set rs then 1 else 0)"
    by (simp only: inner)
  also have "\<dots> = length (filter (\<lambda>r1. A r1 \<and> (userID r1, b) \<in> ratingKey ` set rs) rs)"
    by (rule sum_list_indicator)
  finally show ?thesis .
qed

lemma distinct_key_rows:
  "distinct (map ratingKey rs) \<Longrightarrow> distinct rs"
  by (rule distinct_map [THEN iffD1, THEN conjunct1])

lemma count_pair_users:
  fixes rs :: "rating_row list"
  assumes d: "distinct (map ratingKey rs)" and ab: "a < b"
  shows "length (pairObservations (moviePairs rs) a b)
       = card {u. (u, a) \<in> ratingKey ` set rs \<and> (u, b) \<in> ratingKey ` set rs}"
proof -
  let ?K = "ratingKey ` set rs"
  let ?R = "{r1 \<in> set rs. movieID r1 = a \<and> (userID r1, b) \<in> ?K}"
  have "length (pairObservations (moviePairs rs) a b)
        = length (filter (\<lambda>j. movieID (fst j) = a \<and> movieID (snd j) = b) (joinRatings rs))"
    by (simp add: pairObservations_def moviePairs_def filter_map comp_def selectPair_def)
  also have "\<dots> = length (filter (\<lambda>r1. movieID r1 = a \<and> (userID r1, b) \<in> ?K) rs)"
    using ab by (intro join_count [OF d]) simp
  also have "\<dots> = card ?R"
    using distinct_key_rows [OF d] by (simp add: distinct_length_filter Int_def conj_commute)
  also have "\<dots> = card (userID ` ?R)"
  proof (rule card_image [symmetric])
    have "inj_on ratingKey (set rs)"
      using d by (simp add: distinct_map)
    then show "inj_on userID ?R"
      by (auto simp: inj_on_def ratingKey_def)
  qed
  also have "userID ` ?R = {u. (u, a) \<in> ?K \<and> (u, b) \<in> ?K}"
    by (auto simp: ratingKey_def image_iff)
  finally show ?thesis .
qed

lemma count_pair_of_user:
  fixes rs :: "rating_row list"
  assumes d: "distinct (map ratingKey rs)" and ab: "a < b"
    and ua: "(u, a) \<in> ratingKey ` set rs" and ub: "(u, b) \<in> ratingKey ` set rs"
  shows "length (filter (\<lambda>j. userID (fst j) = u \<and> movieID (fst j) = a \<and> movieID (snd j) = b)
                   (joinRatings rs)) = 1"
proof -
  let ?K = "ratingKey ` set rs"
  have "length (filter (\<lambda>j. (userID (fst j) = u \<and> movieID (fst j) = a) \<and> movieID (snd j) = b)
                   (joinRatings rs))
        = length (filter (\<lambda>r1. (userID r1 = u \<and> movieID r1 = a) \<and> (userID r1, b) \<in> ?K) rs)"
    using ab by (intro join_count [OF d]) simp
  also have "\<dots> = length (filter (\<lambda>r. ratingKey r = (u, a)) rs)"
    using ub by (intro arg_cong [where f = length] filter_cong) (auto simp: ratingKey_def)
  also have "\<dots> = 1"
    using count_key [OF d, of "(u, a)"] ua by simp
  finally show ?thesis by (simp add: conj_assoc)
qed

lemma ratings_eq:
  assumes "distinct (map movieID good)"
  shows "ratings movies good =
     map (\<lambda>m. \<lparr>movieID = movieID m, userID = userID m, rating = rating m\<rparr>)
         (filter (\<lambda>m. movieID m \<in> movieID ` set good) movies)"
proof -
  have one: "map (\<lambda>g. c) (filter (\<lambda>g. movieID g = k) good)
             = (if k \<in> movieID ` set good then [c] else [])" for c :: rating_row and k
  proof -
    have "length (filter (\<lambda>g. movieID g = k) good) = (if k \<in> movieID ` set good then 1 else 0)"
      by (rule count_key [OF assms])
    then show ?thesis
      by (cases "filter (\<lambda>g. movieID g = k) good") (auto split: if_splits)
  qed
  show ?thesis
    unfolding ratings_def one by (rule concat_map_if)
qed

lemma ratingKey_ratings:
  assumes "distinct (map movieID good)"
  shows "map ratingKey (ratings movies good)
       = filter (\<lambda>k. snd k \<in> movieID ` set good) (map ratingKey movies)"
  unfolding ratings_eq [OF assms]
  by (simp add: filter_map comp_def ratingKey_def)

lemma distinct_filterGoodMovies: "distinct (map movieID (filterGoodMovies movies t))"
  unfolding map_movieID_filterGoodMovies by simp

lemma moviePairs_ordered:
  "p \<in> set (moviePairs rs) \<Longrightarrow> movie1 p < movie2 p"
  by (auto simp: moviePairs_def joinRatings_def selectPair_def)

lemma pairObservations_reverse:
  "a < b \<Longrightarrow> pairObservations (moviePairs rs) b a = []"
  using moviePairs_ordered [of _ rs]
  by (fastforce simp: pairObservations_def filter_empty_conv)

text \<open>
  Claim C3, as stated, fails on a rating relation with two rows of one user for one
  movie: user 1 is the only co-rating user of movies 1 and 2, and the pair (1, 2) is
  emitted twice, once for each of that user's rows for movie 1.
\<close>
theorem duplicate_rating_counterexample:
  "map userID duplicateMovies = [1, 1, 1]
   \<and> moviePairs (ratings duplicateMovies (goodMovies duplicateMovies))
       = [\<lparr>movie1 = 1, movie2 = 2, rating1 = Some 5, rating2 = Some 4\<rparr>,
          \<lparr>movie1 = 1, movie2 = 2, rating1 = Some 3, rating2 = Some 4\<rparr>]"
  by (simp add: duplicateMovies_def goodMovies_def filterGoodMovies_def movieAverages_def
      ratingsOf_def avg_def dsum_def avgAtLeast_def fl_numeral_exact ratings_def moviePairs_def
      joinRatings_def selectPair_def)

text \<open>
  Claim C3, amended. Every row of \<open>moviePairs\<close> has \<open>movie1 < movie2\<close>, so no self-pair is
  emitted and no pair is emitted in both orientations. If moreover the rating relation
  has at most one row per user and movie, then for qualified movies \<open>a < b\<close> the number of
  rows for the pair \<open>(a, b)\<close> is the number of users who rated both, no row has the pair
  \<open>(b, a)\<close>, and the self-join has exactly one row for each such user.
\<close>
theorem moviePairs_canonical:
  fixes movies :: "movie_row list"
  shows
   "(\<forall>p \<in> set (moviePairs (ratings movies (filterGoodMovies movies t))). movie1 p < movie2 p)
  \<and> (\<forall>p \<in> set (moviePairs (ratings movies (filterGoodMovies movies t))).
      \<forall>q \<in> set (moviePairs (ratings movies (filterGoodMovies movies t))).
        \<not> (movie1 q = movie2 p \<and> movie2 q = movie1 p))
  \<and> (distinct (map ratingKey movies)
       \<and> a \<in> movieID ` set (filterGoodMovies movies t)
       \<and> b \<in> movieID ` set (filterGoodMovies movies t) \<and> a < b \<longrightarrow>
        length (pairObservations (moviePairs (ratings movies (filterGoodMovies movies t))) a b)
          = card {u. (u, a) \<in> ratingKey ` set movies \<and> (u, b) \<in> ratingKey ` set movies}
      \<and> pairObservations (moviePairs (ratings movies (filterGoodMovies movies t))) b a = []
      \<and> ((u, a) \<in> ratingKey ` set movies \<and> (u, b) \<in> ratingKey ` set movies \<longrightarrow>
           length (filter (\<lambda>j. userID (fst j) = u \<and> movieID (fst j) = a \<and> movieID (snd j) = b)
                     (joinRatings (ratings movies (filterGoodMovies movies t)))) = 1))"
proof (intro conjI impI ballI)
  let ?good = "filterGoodMovies movies t"
  let ?rs = "ratings movies ?good"
  fix p q
  assume p: "p \<in> set (moviePairs ?rs)" and q: "q \<in> set (moviePairs ?rs)"
  show "movie1 p < movie2 p" by (rule moviePairs_ordered [OF p])
  show "\<not> (movie1 q = movie2 p \<and> movie2 q = movie1 p)"
    using moviePairs_ordered [OF p] moviePairs_ordered [OF q] by auto
next
  let ?good = "filterGoodMovies movies t"
  let ?rs = "ratings movies ?good"
  assume h: "distinct (map ratingKey movies) \<and> a \<in> movieID ` set ?good
             \<and> b \<in> movieID ` set ?good \<and> a < b"
  have keys: "map ratingKey ?rs = filter (\<lambda>k. snd k \<in> movieID ` set ?good) (map ratingKey movies)"
    by (rule ratingKey_ratings [OF distinct_filterGoodMovies])
  have d: "distinct (map ratingKey ?rs)"
    unfolding keys using h by simp
  have "set (map ratingKey ?rs) = {k \<in> ratingKey ` set movies. snd k \<in> movieID ` set ?good}"
    unfolding keys by auto
  then have K: "ratingKey ` set ?rs = {k \<in> ratingKey ` set movies. snd k \<in> movieID ` set ?good}"
    by simp
  have mem: "(v, a) \<in> ratingKey ` set ?rs \<longleftrightarrow> (v, a) \<in> ratingKey ` set movies"
            "(v, b) \<in> ratingKey ` set ?rs \<longleftrightarrow> (v, b) \<in> ratingKey ` set movies" for v
    unfolding K using h by simp_all
  show "length (pairObservations (moviePairs ?rs) a b)
          = card {u. (u, a) \<in> ratingKey ` set movies \<and> (u, b) \<in> ratingKey ` set movies}"
    using count_pair_users [OF d, of a b] h by (simp only: mem)
  show "pairObservations (moviePairs ?rs) b a = []"
    using h by (simp add: pairObservations_reverse)
  assume "(u, a) \<in> ratingKey ` set movies \<and> (u, b) \<in> ratingKey ` set movies"
  then have "(u, a) \<in> ratingKey ` set ?rs" "(u, b) \<in> ratingKey ` set ?rs"
    by (simp_all only: mem)
  with h show "length (filter (\<lambda>j. userID (fst j) = u \<and> movieID (fst j) = a \<and> movieID (snd j) = b)
                     (joinRatings ?rs)) = 1"
    by (intro count_pair_of_user [OF d]) simp_all
qed

theorem moviePairs_canonical_witness:
  "distinct (map ratingKey exampleMovies)
   \<and> 1 \<in> movieID ` set (filterGoodMovies exampleMovies 0)
   \<and> 2 \<in> movieID ` set (filterGoodMovies exampleMovies 0)
   \<and> length (pairObservations (moviePairs (ratings exampleMovies (filterGoodMovies exampleMovies 0))) 1 2)
       = card {u. (u, 1) \<in> ratingKey ` set exampleMovies \<and> (u, 2) \<in> ratingKey ` set exampleMovies}
   \<and> length (pairObservations (moviePairs (ratings exampleMovies (filterGoodMovies exampleMovies 0))) 1 2)
       = 2
   \<and> pairObservations (moviePairs (ratings exampleMovies (filterGoodMovies exampleMovies 0))) 2 1 = []
   \<and> length (filter (\<lambda>j. userID (fst j) = 2 \<and> movieID (fst j) = 1 \<and> movieID (snd j) = 2)
                (joinRatings (ratings exampleMovies (filterGoodMovies exampleMovies 0)))) = 1"
proof -
  have d: "distinct (map ratingKey exampleMovies)"
    by (simp add: exampleMovies_def ratingKey_def)
  have q: "1 \<in> movieID ` set (filterGoodMovies exampleMovies 0)"
          "2 \<in> movieID ` set (filterGoodMovies exampleMovies 0)"
    unfolding movieID_filterGoodMovies
    by (simp_all add: exampleMovies_def ratingsOf_def avg_def dsum_def avgAtLeast_def
        fl_numeral_exact fl_nine_halves)
  have k: "(2, 1) \<in> ratingKey ` set exampleMovies" "(2, 2) \<in> ratingKey ` set exampleMovies"
    by (simp_all add: exampleMovies_def ratingKey_def)
  have n: "length (pairObservations
               (moviePairs (ratings exampleMovies (filterGoodMovies exampleMovies 0))) 1 2) = 2"
    by (simp add: exampleMovies_def filterGoodMovies_def movieAverages_def ratingsOf_def avg_def
        dsum_def avgAtLeast_def fl_numeral_exact fl_nine_halves
        ratings_def moviePairs_def joinRatings_def selectPair_def pairObservations_def)
  show ?thesis
    using d q k n moviePairs_canonical [of exampleMovies 0 1 2 2] by simp
qed


section \<open>Properties of the query engine\<close>




lemma mset_insertDesc [simp]: "mset (insertDesc r xs) = add_mset r (mset xs)"
  by (induction xs) simp_all

lemma set_insertDesc [simp]: "set (insertDesc r xs) = insert r (set xs)"
  by (induction xs) auto

lemma mset_sortDesc [simp]: "mset (sortDesc xs) = mset xs"
  by (induction xs) (simp_all add: sortDesc_def)

lemma set_sortDesc [simp]: "set (sortDesc xs) = set xs"
  by (induction xs) (simp_all add: sortDesc_def)

lemma length_sortDesc [simp]: "length (sortDesc xs) = length xs"
  by (rule mset_eq_length) simp









section \<open>Properties of the name resolver\<close>

text \<open>
  Claim C10. \<open>getMovieName\<close> returns the title of a catalogue row whose \<open>movieID\<close> is the
  requested id exactly when the catalogue has such a row; when it has none, the lookup
  fails with \<open>IndexError\<close> and returns no title.
\<close>
theorem getMovieName_lookup:
  "(if \<exists>r \<in> set movieNames. movieID r = movieId
    then \<exists>r \<in> set movieNames. movieID r = movieId
           \<and> getMovieName movieNames movieId = Inr (movieTitle r)
    else getMovieName movieNames movieId = Inl IndexError)"
proof (cases "filter (\<lambda>r. movieID r = movieId) movieNames")
  case Nil
  then have "\<not> (\<exists>r \<in> set movieNames. movieID r = movieId)"
    by (simp add: filter_empty_conv)
  with Nil show ?thesis by (simp add: getMovieName_def)
next
  case (Cons r rs)
  then have "r \<in> set (filter (\<lambda>r. movieID r = movieId) movieNames)" by simp
  then have "r \<in> set movieNames" "movieID r = movieId" by simp_all
  with Cons show ?thesis by (auto simp: getMovieName_def)
qed

theorem getMovieName_lookup_witness:
  "getMovieName exampleNames 2 = Inr ''GoldenEye (1995)''
   \<and> getMovieName exampleNames 7 = Inl IndexError"
  using getMovieName_lookup [of exampleNames 2] getMovieName_lookup [of exampleNames 7]
  by (simp add: exampleNames_def)


section \<open>Properties of the script\<close>


lemma joinRatings_set:
  "set (joinRatings rs) =
     {(r1, r2). r1 \<in> set rs \<and> r2 \<in> set rs \<and> userID r2 = userID r1 \<and> movieID r2 > movieID r1}"
  by (auto simp: joinRatings_def)













lemma py_int_1: "py_int exampleConfig (codepoints ''1'') = Some 1"
  by (simp add: py_int_def strip_def is_space_def py_unsigned_def digit_of_def
      too_many_digits_def codepoints_def)


text \<open>A file separator before the digit is no white space for \<open>int\<close>; a no-break space is;
  the Arabic-Indic digits three and four read 34.\<close>
lemma py_int_separators:
  "py_int exampleConfig [0x1C, 53] = None"
  "py_int exampleConfig [0xA0, 53] = Some 5"
  "py_int exampleConfig [0x663, 0x664] = Some 34"
  by (simp_all add: py_int_def strip_def is_space_def py_unsigned_def digit_of_def
      too_many_digits_def is_unicode_space_def exampleConfig_def)


text \<open>A text of 4301 digits exceeds the limit of the interpreter.\<close>
lemma py_int_too_long: "py_int exampleConfig (replicate 4301 49) = None"
proof -
  have a: "toAscii cfg (replicate n 49) = replicate n 49" for cfg n
    by (induction n) simp_all
  have b: "strip (replicate n 49) = replicate n 49" for n
    by (simp add: strip_def is_space_def dropWhile_replicate)
  have c: "too_many_digits exampleConfig (replicate 4301 49)"
    by (simp add: too_many_digits_def exampleConfig_def)
  have d: "py_unsigned cfg s = None" if "too_many_digits cfg s" for cfg s
    using that by (auto simp: py_unsigned_def split: list.splits option.splits)
  have e: "py_int cfg (replicate (Suc n) 49) = py_unsigned cfg (replicate (Suc n) 49)" for cfg n
    unfolding py_int_def a b by simp
  have h: "Suc 4300 = 4301" by simp
  from e [of exampleConfig 4300]
  have "py_int exampleConfig (replicate 4301 49) = py_unsigned exampleConfig (replicate 4301 49)"
    unfolding h .
  with d [OF c] show ?thesis by simp
qed



text \<open>With 51 users who rate movies 1 and 2 alike, the query for movie 1 finds movie 2.\<close>
lemma set_crowd:
  "set (crowd us) =
     (\<Union>u \<in> set us. {\<lparr>movieID = 1, userID = u, rating = Some 5, timestamp = 0\<rparr>,
                      \<lparr>movieID = 2, userID = u, rating = Some 5, timestamp = 0\<rparr>})"
  by (simp add: crowd_def)

lemma ratingKey_crowd:
  "map ratingKey (crowd us) = concat (map (\<lambda>u. [(u, 1), (u, 2)]) us)"
  by (induction us) (simp_all add: crowd_def ratingKey_def)

lemma distinct_crowd: "distinct us \<Longrightarrow> distinct (map ratingKey (crowd us))"
  unfolding ratingKey_crowd by (induction us) auto

lemma ratingsOf_crowd:
  "m = 1 \<or> m = 2 \<Longrightarrow> ratingsOf (crowd us) m = map (\<lambda>u. Some 5) us"
  by (induction us) (auto simp: crowd_def ratingsOf_def)

lemma nonNull_const: "nonNull (map (\<lambda>u. Some c) us) = map (\<lambda>u. c) us"
  by (induction us) simp_all

lemma avg_crowd:
  assumes "us \<noteq> []" "length us \<le> 2 ^ 50" "m = 1 \<or> m = 2"
  shows "avg (ratingsOf (crowd us) m) = Some 5"
proof -
  have s: "sum_list (map (\<lambda>u. 5::int) us) = 5 * int (length us)"
    by (induction us) simp_all
  have s': "sum_list (map abs (map (\<lambda>u. 5::int) us)) = 5 * int (length us)"
    by (induction us) simp_all
  have "5 * int (length us) \<le> 5 * 2 ^ 50" using assms(2)
    by (simp add: of_nat_le_iff [of _ "2 ^ 50", simplified])
  then have b: "sum_list (map abs (nonNull (ratingsOf (crowd us) m))) \<le> 2 ^ 53"
    unfolding ratingsOf_crowd [OF assms(3)] nonNull_const s' by simp
  have l: "length (nonNull (ratingsOf (crowd us) m)) \<le> 2 ^ 53"
    unfolding ratingsOf_crowd [OF assms(3)] nonNull_const using assms(2) by simp
  have n: "nonNull (ratingsOf (crowd us) m) \<noteq> []"
    unfolding ratingsOf_crowd [OF assms(3)] nonNull_const using assms(1) by simp
  have "mean (map (\<lambda>u. 5::int) us) = 5"
    using assms(1) by (simp add: mean_def s)
  then show ?thesis
    using avg_exact [OF n b l]
    unfolding ratingsOf_crowd [OF assms(3)] nonNull_const by (simp add: fl_numeral_exact)
qed


lemma movieID_crowd: "us \<noteq> [] \<Longrightarrow> movieID ` set (crowd us) = {1, 2}"
  by (cases us) (auto simp: set_crowd)

lemma goodMovies_crowd:
  assumes "us \<noteq> []" "length us \<le> 2 ^ 50"
  shows "movieID ` set (goodMovies (crowd us)) = {1, 2}"
  unfolding goodMovies_def movieID_filterGoodMovies movieID_crowd [OF assms(1)]
  using avg_crowd [OF assms] by (auto simp: avgAtLeast_def)

lemma ratings_crowd:
  assumes "us \<noteq> []" "length us \<le> 2 ^ 50"
  shows "ratings (crowd us) (goodMovies (crowd us)) =
     map (\<lambda>m. \<lparr>movieID = movieID m, userID = userID m, rating = rating m\<rparr>) (crowd us)"
proof -
  have d: "distinct (map movieID (goodMovies (crowd us)))"
    unfolding goodMovies_def by (rule distinct_filterGoodMovies)
  have "filter (\<lambda>m. movieID m \<in> movieID ` set (goodMovies (crowd us))) (crowd us) = crowd us"
    unfolding goodMovies_crowd [OF assms] by (rule filter_True) (auto simp: set_crowd)
  then show ?thesis unfolding ratings_eq [OF d] by simp
qed

lemma ratingKey_ratings_crowd:
  assumes "us \<noteq> []" "length us \<le> 2 ^ 50"
  shows "map ratingKey (ratings (crowd us) (goodMovies (crowd us))) = map ratingKey (crowd us)"
  unfolding ratings_crowd [OF assms] by (simp add: ratingKey_def comp_def)

lemma moviePairs_crowd_rows:
  assumes "us \<noteq> []" "length us \<le> 2 ^ 50"
    and "p \<in> set (moviePairs (ratings (crowd us) (goodMovies (crowd us))))"
  shows "movie1 p = 1" "movie2 p = 2" "rating1 p = Some 5" "rating2 p = Some 5"
  using assms(3) unfolding ratings_crowd [OF assms(1,2)]
  by (auto simp: moviePairs_def joinRatings_set selectPair_def set_crowd)

lemma card_crowd_users:
  assumes "distinct us"
  shows "card {u. (u, 1) \<in> ratingKey ` set (crowd us) \<and> (u, 2) \<in> ratingKey ` set (crowd us)}
           = length us"
proof -
  have "ratingKey ` set (crowd us) = set (map ratingKey (crowd us))" by simp
  also have "\<dots> = (\<Union>u \<in> set us. {(u, 1), (u, 2)})"
    unfolding ratingKey_crowd by simp
  finally have "{u. (u, 1) \<in> ratingKey ` set (crowd us) \<and> (u, 2) \<in> ratingKey ` set (crowd us)}
                  = set us"
    by auto
  then show ?thesis using assms by (simp add: distinct_card)
qed

lemma length_pairObservations_crowd:
  assumes "us \<noteq> []" "length us \<le> 2 ^ 50" "distinct us"
  shows "length (pairObservations (moviePairs (ratings (crowd us) (goodMovies (crowd us)))) 1 2)
           = length us"
proof -
  let ?rs = "ratings (crowd us) (goodMovies (crowd us))"
  have k: "map ratingKey ?rs = map ratingKey (crowd us)"
    by (rule ratingKey_ratings_crowd [OF assms(1,2)])
  have d: "distinct (map ratingKey ?rs)"
    unfolding k by (rule distinct_crowd [OF assms(3)])
  have s: "ratingKey ` set ?rs = ratingKey ` set (crowd us)"
    using k by (metis set_map)
  show ?thesis
    using count_pair_users [OF d, of 1 2] unfolding s card_crowd_users [OF assms(3)] by simp
qed

lemma scoreThreshold_below: "scoreThreshold < 1 - 1 / 2 ^ 50"
proof -
  have "scoreThreshold \<le> 97 / 100 * (1 + unit_roundoff)"
    unfolding scoreThreshold_def by (rule fl_upper) simp
  also have "\<dots> < 1 - 1 / 2 ^ 50" by (simp add: unit_roundoff_def)
  finally show ?thesis .
qed

lemma sumSquares1_const:
  assumes "\<forall>d \<in> set obs. rating1 d = Some c"
  shows "sumSquares1 obs = c * c * int (length obs)"
  using assms by (induction obs) (simp_all add: sumSquares1_def ratingValue_def algebra_simps)

lemma moviePairSimilarities_crowd:
  assumes "us \<noteq> []" "length us \<le> 2 ^ 48" "distinct us"
  shows "\<exists>s. moviePairSimilarities (crowd us)
               = [\<lparr>movie1 = 1, movie2 = 2, numPairs = length us, score = Some (Fin s)\<rparr>]
            \<and> \<bar>s - 1\<bar> \<le> 1 / 2 ^ 50"
proof -
  let ?data = "moviePairs (ratings (crowd us) (goodMovies (crowd us)))"
  let ?obs = "pairObservations ?data 1 2"
  have l50: "length us \<le> 2 ^ 50"
    using assms(2) by (rule order_trans) simp
  note rows = moviePairs_crowd_rows [OF assms(1) l50]
  have len: "length ?obs = length us"
    by (rule length_pairObservations_crowd [OF assms(1) l50 assms(3)])
  have obs: "?obs = ?data"
    unfolding pairObservations_def by (rule filter_True) (simp add: rows)
  have ne: "?data \<noteq> []"
    using len assms(1) unfolding obs by auto
  have keys: "remdups (map (\<lambda>d. (movie1 d, movie2 d)) ?data) = [(1, 2)]"
    by (rule remdups_single) (use ne in \<open>auto simp: rows\<close>)
  have k: "(1, 2) \<in> set (map (\<lambda>d. (movie1 d, movie2 d)) ?data)"
    using keys by (metis list.set_intros(1) set_remdups)
  have w: "ratingsWithin (- 46340) 46340 ?obs"
    unfolding obs
    by (auto simp: ratingsWithin_def list_all_iff bothRated_def ratingValue_def rows)
  have same: "\<forall>d \<in> set ?obs. rating1 d = rating2 d"
    unfolding obs by (simp add: rows)
  have c: "\<forall>d \<in> set ?obs. rating1 d = Some 5"
    unfolding obs by (simp add: rows)
  have "int (length us) \<le> 2 ^ 48"
    using assms(2) by (simp add: of_nat_le_iff [of _ "2 ^ 48", simplified])
  moreover have "1 \<le> int (length us)"
    using assms(1) by (cases us) simp_all
  ultimately
  have S: "sumSquares1 ?obs \<le> 2 ^ 53" "1 \<le> sumSquares1 ?obs"
    unfolding sumSquares1_const [OF c] len by simp_all
  note eq = identical_sums [OF same]
  have one: "?obs \<noteq> []" using ne unfolding obs .
  have sim: "simOf ?data (1, 2) =
     \<lparr>movie1 = 1, movie2 = 2, numPairs = length ?obs, score = Some (specScore ?obs)\<rparr>"
    using S by (intro simOf_exact [OF one w]) (simp_all add: eq)
  from identical_specScore [OF same S(2) S(1)]
  obtain s where s: "specScore ?obs = Fin s" "\<bar>s - 1\<bar> \<le> 1 / 2 ^ 50" by blast
  have "moviePairSimilarities (crowd us) = [simOf ?data (1, 2)]"
    by (simp add: moviePairSimilarities_def computeCosineSimilarity_eq keys)
  with sim s len show ?thesis by simp
qed

lemma results_crowd:
  assumes "us \<noteq> []" "length us \<le> 2 ^ 48" "distinct us" "50 < length us"
  shows "\<exists>s. results (moviePairSimilarities (crowd us)) 1 scoreThreshold coOccurrenceThreshold 10
               = [\<lparr>movie1 = 1, movie2 = 2, numPairs = length us, score = Some (Fin s)\<rparr>]"
proof -
  from moviePairSimilarities_crowd [OF assms(1-3)]
  obtain s where s: "moviePairSimilarities (crowd us)
               = [\<lparr>movie1 = 1, movie2 = 2, numPairs = length us, score = Some (Fin s)\<rparr>]"
    "\<bar>s - 1\<bar> \<le> 1 / 2 ^ 50" by blast
  from s(2) scoreThreshold_below have "scoreThreshold < s" by linarith
  then show ?thesis
    using assms(4)
    by (simp add: s(1) results_def filteredResults_def sortDesc_def coOccurrenceThreshold_def)
qed

lemma script_crowdMovies:
  "\<exists>s. script exampleConfig exampleNames crowdMovies (codepoints ''1'')
         = \<lparr>printed = [TopLine ''Toy Story (1995)'',
                        ResultLine ''GoldenEye (1995)'' (Some (Fin s)) 51],
            ended = Finished\<rparr>"
proof -
  have u: "[1..51] \<noteq> []" "length [1..51] \<le> 2 ^ 48" "distinct [1..51]" "50 < length [1..51]"
    by simp_all
  from results_crowd [OF u]
  obtain s where
    "results (moviePairSimilarities crowdMovies) 1 scoreThreshold coOccurrenceThreshold 10
       = [\<lparr>movie1 = 1, movie2 = 2, numPairs = 51, score = Some (Fin s)\<rparr>]"
    unfolding crowdMovies_def by auto
  then have "script exampleConfig exampleNames crowdMovies (codepoints ''1'')
         = \<lparr>printed = [TopLine ''Toy Story (1995)'',
                        ResultLine ''GoldenEye (1995)'' (Some (Fin s)) 51],
            ended = Finished\<rparr>"
    by (simp add: script_def py_int_1 fits_long_def getMovieName_def exampleNames_def)
  then show ?thesis by blast
qed




end
